theory Spec2Isabelle
  imports Complex_Main "HOL-Library.AList" "HOL-Library.Product_Lexorder"
begin

section \<open>Task orchestrator: data model\<close>

text \<open>
  The enumerations of \<^verbatim>\<open>swarm/types.ts\<close>. \<^verbatim>\<open>TaskStatus\<close> has exactly these seven
  members; a cascade failure has no status of its own.
\<close>

datatype Priority = CRITICAL | HIGH | MEDIUM | LOW

datatype TaskStatus = PENDING | ASSIGNED | RUNNING | COMPLETED | FAILED | TIMEOUT | CANCELLED

datatype BackoffStrategy = LINEAR | EXPONENTIAL | CONSTANT | CUSTOM

text \<open>
  JavaScript numbers are modelled by \<^typ>\<open>int\<close> where the code only counts or stores
  millisecond clock readings, and by \<^typ>\<open>rat\<close> where it divides or raises to a power
  (\<^verbatim>\<open>Math.pow(2, -1)\<close> is one half).
\<close>

record RetryPolicy =
  maxRetries :: int
  backoffStrategy :: BackoffStrategy
  initialDelay :: rat
  maxDelay :: rat

text \<open>\<^verbatim>\<open>TaskResult\<close>: the fields the orchestrator reads or writes (the metrics block and the
  output payload are carried by no decision of the code and are left out).\<close>

record TaskResult =
  r_taskId :: string
  r_agentId :: string
  r_status :: TaskStatus
  r_error :: "string option"
  r_timestamp :: int

text \<open>
  \<^verbatim>\<open>TaskInstance\<close>: a mutable object. The two \<^verbatim>\<open>Set<string>\<close> fields are lists without
  duplicates in insertion order, which is the order JavaScript iterates a Set in. The field
  \<^verbatim>\<open>id\<close> is called \<open>tid\<close> here.
\<close>

record TaskInstance =
  tid :: string
  priority :: Priority
  status :: TaskStatus
  assignedAgent :: "string option"
  attempts :: int
  results :: "TaskResult list"
  dependencies :: "string list"
  dependents :: "string list"
  startTime :: "int option"
  endTime :: "int option"
  nextRetryTime :: "int option"

text \<open>The submitted \<^verbatim>\<open>Task\<close>: its id (the empty string is falsy: no id given), its name,
  its priority and \<^verbatim>\<open>requirements?.dependencies || []\<close>. The type, the input and the other
  requirements are read by the strategy only, which is a parameter here.\<close>

record Task =
  task_id :: string
  task_name :: string
  task_priority :: Priority
  task_dependencies :: "string list"

text \<open>The events the orchestrator emits, in the order of emission.\<close>

datatype Event =
    EvStarted | EvStopped | EvPaused | EvResumed
  | TaskQueued string | TaskWaiting string
  | AgentRegistered string | AgentUnregistered string
  | TaskCancelRequested string string | TaskCancelled string
  | TaskAssigned string string | TaskStarted string string
  | TaskCompleted string | TaskUnblocked string
  | TaskFailedEv string | TaskScheduledRetry string int | TaskCascadeFailed string
  | TaskRetry string | TaskDependenciesMet string | TaskTimeoutEv string

datatype OrchestratorError = QueueFull

text \<open>
  The configuration. The strategy's \<^verbatim>\<open>assignTask(task, agents)\<close> is a parameter: a
  function from the task and the list of available agents to the chosen agent, if any.
  Agents are identified by their ids.
\<close>

record TaskOrchestratorConfig =
  strategy :: "TaskInstance \<Rightarrow> string list \<Rightarrow> string option"
  retryPolicy :: "RetryPolicy option"
  timeout :: int
  maxQueueSize :: int
  priorityQueueEnabled :: bool

text \<open>
  The orchestrator's state. Task instances are shared objects: the task map, the queue and a
  running execution all hold references to them, and \<^verbatim>\<open>submitTask\<close> can bind an id to a
  new object while the old one is still queued or running. So the objects live in a store
  (\<open>objects\<close>, addressed by position; an object is never freed), and the map and the queue
  hold addresses. The map is an association list in insertion order (the iteration order of
  a JavaScript Map). The field \<^verbatim>\<open>dependencyGraph\<close> is only ever written and is left out.
  The queue is the one the constructor builds: the \<^verbatim>\<open>PriorityTaskQueue\<close> (one array per
  priority) when \<^verbatim>\<open>priorityQueueEnabled\<close> is true, which is the default, and the queue of
  \<^verbatim>\<open>createSimpleQueue\<close> (one array) when it is false.
\<close>

datatype TaskQueue = PriorityQueue "Priority \<Rightarrow> nat list" | SimpleQueue "nat list"

record TaskOrchestrator =
  config :: TaskOrchestratorConfig
  objects :: "TaskInstance list"
  tasks :: "(string \<times> nat) list"
  queue :: TaskQueue
  agents :: "string list"
  running :: bool
  emitted :: "Event list"

text \<open>
  The methods are asynchronous in the source. Each is modelled as one step that runs to its
  end: an \<^verbatim>\<open>await\<close> on the strategy or on a recursive call is taken to resume at once, with no
  other caller in between. The one \<^verbatim>\<open>await\<close> that does not resume at once is the one on
  \<^verbatim>\<open>agent.execute(task)\<close>: the execution of a task is split there, into the assignment
  (\<open>assignTaskToAgent\<close>) and the later arrival of the agent's answer
  (\<open>executeTask_resolved\<close>, \<open>executeTask_rejected\<close>). Clock readings (\<^verbatim>\<open>Date.now()\<close>,
  \<^verbatim>\<open>new Date()\<close>) are arguments, in milliseconds.
\<close>

subsection \<open>Sets and object updates\<close>

definition Set_add :: "'a \<Rightarrow> 'a list \<Rightarrow> 'a list" where
  "Set_add x xs = (if x \<in> set xs then xs else xs @ [x])"

definition Set_delete :: "'a \<Rightarrow> 'a list \<Rightarrow> 'a list" where
  "Set_delete x xs = removeAll x xs"

definition new_Set :: "'a list \<Rightarrow> 'a list" where
  "new_Set xs = foldl (\<lambda>s x. Set_add x s) [] xs"

definition modify :: "nat \<Rightarrow> (TaskInstance \<Rightarrow> TaskInstance) \<Rightarrow> TaskOrchestrator \<Rightarrow> TaskOrchestrator" where
  "modify a f st = st\<lparr>objects := (objects st)[a := f (objects st ! a)]\<rparr>"

definition emit :: "Event \<Rightarrow> TaskOrchestrator \<Rightarrow> TaskOrchestrator" where
  "emit e st = st\<lparr>emitted := emitted st @ [e]\<rparr>"

subsection \<open>The two task queues\<close>

text \<open>The class \<^verbatim>\<open>PriorityTaskQueue\<close>, on its Map from priorities to arrays.\<close>

definition priorityOrder :: "Priority list" where
  "priorityOrder = [CRITICAL, HIGH, MEDIUM, LOW]"

text \<open>\<^verbatim>\<open>add\<close>: push at the end of the array of the task's priority.\<close>

definition PriorityTaskQueue_add :: "TaskInstance list \<Rightarrow> nat \<Rightarrow> (Priority \<Rightarrow> nat list) \<Rightarrow> (Priority \<Rightarrow> nat list)" where
  "PriorityTaskQueue_add os a q = q((priority (os ! a)) := q (priority (os ! a)) @ [a])"

text \<open>\<^verbatim>\<open>findIndex\<close> followed by \<^verbatim>\<open>splice(index, 1)\<close>: drop the first element that satisfies
  the test; \<open>None\<close> when \<^verbatim>\<open>findIndex\<close> returns -1.\<close>

fun splice_first :: "('a \<Rightarrow> bool) \<Rightarrow> 'a list \<Rightarrow> 'a list option" where
  "splice_first P [] = None"
| "splice_first P (x # xs) =
     (if P x then Some xs else map_option ((#) x) (splice_first P xs))"

text \<open>\<^verbatim>\<open>remove\<close>: the arrays are visited in the order they were put in the Map; the first
  array that holds a task of that id loses its first such task, and the loop breaks.\<close>

fun queue_remove_from :: "TaskInstance list \<Rightarrow> string \<Rightarrow> Priority list \<Rightarrow> (Priority \<Rightarrow> nat list) \<Rightarrow> (Priority \<Rightarrow> nat list)" where
  "queue_remove_from os taskId [] q = q"
| "queue_remove_from os taskId (p # ps) q =
     (case splice_first (\<lambda>a. tid (os ! a) = taskId) (q p) of
        Some xs \<Rightarrow> q(p := xs)
      | None \<Rightarrow> queue_remove_from os taskId ps q)"

definition PriorityTaskQueue_remove :: "TaskInstance list \<Rightarrow> string \<Rightarrow> (Priority \<Rightarrow> nat list) \<Rightarrow> (Priority \<Rightarrow> nat list)" where
  "PriorityTaskQueue_remove os taskId q = queue_remove_from os taskId priorityOrder q"

text \<open>\<^verbatim>\<open>getNext\<close>: the first element (\<^verbatim>\<open>shift\<close>) of the first non-empty array in
  \<^verbatim>\<open>priorityOrder\<close>; \<open>None\<close> is the source's \<^verbatim>\<open>null\<close>.\<close>

fun queue_getNext_from :: "Priority list \<Rightarrow> (Priority \<Rightarrow> nat list) \<Rightarrow> (nat \<times> (Priority \<Rightarrow> nat list)) option" where
  "queue_getNext_from [] q = None"
| "queue_getNext_from (p # ps) q =
     (case q p of
        a # rest \<Rightarrow> Some (a, q(p := rest))
      | [] \<Rightarrow> queue_getNext_from ps q)"

definition PriorityTaskQueue_getNext :: "(Priority \<Rightarrow> nat list) \<Rightarrow> (nat \<times> (Priority \<Rightarrow> nat list)) option" where
  "PriorityTaskQueue_getNext q = queue_getNext_from priorityOrder q"

definition PriorityTaskQueue_size :: "(Priority \<Rightarrow> nat list) \<Rightarrow> nat" where
  "PriorityTaskQueue_size q = sum_list (map (\<lambda>p. length (q p)) priorityOrder)"

text \<open>
  The interface \<^verbatim>\<open>TaskQueue\<close>: each method on the queue the orchestrator was built with. On
  the queue of \<^verbatim>\<open>createSimpleQueue\<close>, \<^verbatim>\<open>add\<close> pushes at the end of the one array, \<^verbatim>\<open>remove\<close>
  drops the first task of that id, and \<^verbatim>\<open>getNext\<close> is \<^verbatim>\<open>queue.shift() || null\<close>: the priority
  of a task is never read.
\<close>

fun queue_add :: "TaskInstance list \<Rightarrow> nat \<Rightarrow> TaskQueue \<Rightarrow> TaskQueue" where
  "queue_add os a (PriorityQueue q) = PriorityQueue (PriorityTaskQueue_add os a q)"
| "queue_add os a (SimpleQueue xs) = SimpleQueue (xs @ [a])"

fun queue_remove :: "TaskInstance list \<Rightarrow> string \<Rightarrow> TaskQueue \<Rightarrow> TaskQueue" where
  "queue_remove os taskId (PriorityQueue q) = PriorityQueue (PriorityTaskQueue_remove os taskId q)"
| "queue_remove os taskId (SimpleQueue xs) =
     SimpleQueue (case splice_first (\<lambda>a. tid (os ! a) = taskId) xs of Some ys \<Rightarrow> ys | None \<Rightarrow> xs)"

fun queue_getNext :: "TaskQueue \<Rightarrow> (nat \<times> TaskQueue) option" where
  "queue_getNext (PriorityQueue q) =
     (case PriorityTaskQueue_getNext q of None \<Rightarrow> None | Some (a, q') \<Rightarrow> Some (a, PriorityQueue q'))"
| "queue_getNext (SimpleQueue xs) = (case xs of [] \<Rightarrow> None | a # rest \<Rightarrow> Some (a, SimpleQueue rest))"

fun queue_size :: "TaskQueue \<Rightarrow> nat" where
  "queue_size (PriorityQueue q) = PriorityTaskQueue_size q"
| "queue_size (SimpleQueue xs) = length xs"

fun queue_clear :: "TaskQueue \<Rightarrow> TaskQueue" where
  "queue_clear (PriorityQueue q) = PriorityQueue (\<lambda>p. [])"
| "queue_clear (SimpleQueue xs) = SimpleQueue []"


subsection \<open>Submission and queries\<close>

text \<open>\<^verbatim>\<open>canQueueTask\<close>: every dependency id is bound in the task map to a task whose status
  is COMPLETED.\<close>

definition canQueueTask :: "TaskOrchestrator \<Rightarrow> TaskInstance \<Rightarrow> bool" where
  "canQueueTask st task =
     list_all (\<lambda>depId. case map_of (tasks st) depId of
                          None \<Rightarrow> False
                        | Some d \<Rightarrow> status (objects st ! d) = COMPLETED)
       (dependencies task)"

text \<open>\<^verbatim>\<open>updateDependencyGraph\<close>: the task's id is added to the dependents of every dependency
  that is in the task map at this moment.\<close>

definition updateDependencyGraph :: "nat \<Rightarrow> TaskOrchestrator \<Rightarrow> TaskOrchestrator" where
  "updateDependencyGraph a st =
     foldl (\<lambda>s depId. case map_of (tasks s) depId of
                         None \<Rightarrow> s
                       | Some d \<Rightarrow> modify d (\<lambda>t. t\<lparr>dependents := Set_add (tid (objects s ! a)) (dependents t)\<rparr>) s)
       st (dependencies (objects st ! a))"

text \<open>
  \<^verbatim>\<open>submitTask(task)\<close>. The second argument is the string \<^verbatim>\<open>uuidv4()\<close> would return. The
  source has no test of whether the id is already in the task map: \<^verbatim>\<open>tasks.set\<close> binds the
  id to the new instance.
\<close>

definition submitTask :: "Task \<Rightarrow> string \<Rightarrow> TaskOrchestrator \<Rightarrow> OrchestratorError + TaskOrchestrator" where
  "submitTask task uuid st =
     (if int (queue_size (queue st)) \<ge> maxQueueSize (config st) then Inl QueueFull
      else
        let inst = \<lparr> tid = (if task_id task = [] then ''task-'' @ uuid else task_id task),
                     priority = task_priority task,
                     status = PENDING,
                     assignedAgent = None,
                     attempts = 0,
                     results = [],
                     dependencies = new_Set (task_dependencies task),
                     dependents = [],
                     startTime = None, endTime = None, nextRetryTime = None \<rparr>;
            a = length (objects st);
            st1 = st\<lparr>objects := objects st @ [inst], tasks := AList.update (tid inst) a (tasks st)\<rparr>;
            st2 = updateDependencyGraph a st1
        in if canQueueTask st2 (objects st2 ! a)
           then Inr (emit (TaskQueued (tid inst)) (st2\<lparr>queue := queue_add (objects st2) a (queue st2)\<rparr>))
           else Inr (emit (TaskWaiting (tid inst)) st2))"

text \<open>\<^verbatim>\<open>getTaskStatus\<close>: an id that is not in the task map is answered with CANCELLED.\<close>

definition getTaskStatus :: "TaskOrchestrator \<Rightarrow> string \<Rightarrow> TaskStatus" where
  "getTaskStatus st taskId =
     (case map_of (tasks st) taskId of
        Some a \<Rightarrow> status (objects st ! a)
      | None \<Rightarrow> CANCELLED)"

text \<open>\<^verbatim>\<open>getTaskResult\<close>: the last recorded result; \<open>None\<close> is the source's \<^verbatim>\<open>null\<close>.\<close>

definition getTaskResult :: "TaskOrchestrator \<Rightarrow> string \<Rightarrow> TaskResult option" where
  "getTaskResult st taskId =
     (case map_of (tasks st) taskId of
        None \<Rightarrow> None
      | Some a \<Rightarrow> (if results (objects st ! a) = [] then None
                   else Some (last (results (objects st ! a)))))"

subsection \<open>Retry policy\<close>

definition shouldRetry :: "TaskOrchestrator \<Rightarrow> TaskInstance \<Rightarrow> bool" where
  "shouldRetry st task =
     (case retryPolicy (config st) of
        None \<Rightarrow> False
      | Some policy \<Rightarrow> attempts task \<le> maxRetries policy)"

text \<open>\<^verbatim>\<open>calculateRetryDelay\<close>, with the policy as an argument (the source reads
  \<^verbatim>\<open>this.config.retryPolicy!\<close>). CUSTOM falls to the \<^verbatim>\<open>default\<close> branch.\<close>

definition calculateRetryDelay :: "RetryPolicy \<Rightarrow> TaskInstance \<Rightarrow> rat" where
  "calculateRetryDelay policy task =
     (let attempt = attempts task - 1;
          delay = (case backoffStrategy policy of
                     LINEAR \<Rightarrow> initialDelay policy * of_int attempt
                   | EXPONENTIAL \<Rightarrow> initialDelay policy * (2 powi (attempt - 1))
                   | CONSTANT \<Rightarrow> initialDelay policy
                   | CUSTOM \<Rightarrow> initialDelay policy)
      in min delay (maxDelay policy))"

text \<open>The policy the constructor installs when the caller gives none.\<close>

definition defaultRetryPolicy :: RetryPolicy where
  "defaultRetryPolicy =
     \<lparr> maxRetries = 3, backoffStrategy = EXPONENTIAL, initialDelay = 1000, maxDelay = 60000 \<rparr>"

subsection \<open>Agents\<close>

text \<open>\<^verbatim>\<open>registerAgent\<close>: \<^verbatim>\<open>agents.set(agent.id, agent)\<close>. (The \<^verbatim>\<open>setImmediate\<close> it may schedule
  is a later call of \<open>processTasks\<close>.)\<close>

definition registerAgent :: "string \<Rightarrow> TaskOrchestrator \<Rightarrow> TaskOrchestrator" where
  "registerAgent agent st = emit (AgentRegistered agent) (st\<lparr>agents := Set_add agent (agents st)\<rparr>)"


subsection \<open>Cancellation\<close>

text \<open>
  \<^verbatim>\<open>cancelTask\<close> calls itself on every dependent, and nothing bounds the depth: a task that
  is its own dependent (submitted with its own id among its dependencies) makes the source
  recurse until the stack overflows. The first argument bounds the depth of the recursion;
  \<open>None\<close> means the bound was reached. The source has no test of the task's status before
  \<^verbatim>\<open>task.status = TaskStatus.CANCELLED\<close>.
\<close>

fun cancelTask :: "nat \<Rightarrow> string \<Rightarrow> TaskOrchestrator \<Rightarrow> TaskOrchestrator option" where
  "cancelTask 0 taskId st = None"
| "cancelTask (Suc n) taskId st =
     (case map_of (tasks st) taskId of
        None \<Rightarrow> Some st
      | Some a \<Rightarrow>
          let task = objects st ! a;
              st1 = (if status task = RUNNING
                     then (case assignedAgent task of
                             Some ag \<Rightarrow> if ag \<in> set (agents st)
                                        then emit (TaskCancelRequested taskId ag) st else st
                           | None \<Rightarrow> st)
                     else st);
              st2 = modify a (\<lambda>t. t\<lparr>status := CANCELLED\<rparr>) st1;
              st3 = st2\<lparr>queue := queue_remove (objects st2) taskId (queue st2)\<rparr>
          in map_option (emit (TaskCancelled taskId))
               (foldl (\<lambda>acc dependentId. case acc of None \<Rightarrow> None
                                          | Some s \<Rightarrow> cancelTask n dependentId s)
                  (Some st3) (dependents task)))"

subsection \<open>Completion and failure of an execution\<close>

text \<open>\<^verbatim>\<open>new Date(x)\<close> keeps the integral part of the millisecond count.\<close>

definition new_Date :: "rat \<Rightarrow> int" where
  "new_Date x = (if x \<ge> 0 then \<lfloor>x\<rfloor> else \<lceil>x\<rceil>)"

text \<open>\<^verbatim>\<open>handleTaskCompletion\<close>: the task's id leaves the dependencies of each dependent, which
  is queued when it has become ready; a task that has no dependents is deleted from the
  task map.\<close>

definition handleTaskCompletion :: "nat \<Rightarrow> TaskOrchestrator \<Rightarrow> TaskOrchestrator" where
  "handleTaskCompletion a st =
     (let st1 = foldl (\<lambda>s dependentId.
                   case map_of (tasks s) dependentId of
                     None \<Rightarrow> s
                   | Some d \<Rightarrow>
                       let s1 = modify d (\<lambda>t. t\<lparr>dependencies := Set_delete (tid (objects s ! a)) (dependencies t)\<rparr>) s
                       in if canQueueTask s1 (objects s1 ! d)
                          then emit (TaskUnblocked dependentId) (s1\<lparr>queue := queue_add (objects s1) d (queue s1)\<rparr>)
                          else s1)
                 st (dependents (objects st ! a))
      in if dependents (objects st1 ! a) = []
         then st1\<lparr>tasks := AList.delete (tid (objects st1 ! a)) (tasks st1)\<rparr>
         else st1)"

text \<open>\<^verbatim>\<open>handleTaskFailure\<close>: either the retry is scheduled, or every dependent (the direct
  ones: the loop does not descend) that is in the task map with status PENDING gets the
  status FAILED. The queue is not touched.\<close>

definition handleTaskFailure :: "nat \<Rightarrow> int \<Rightarrow> TaskOrchestrator \<Rightarrow> TaskOrchestrator" where
  "handleTaskFailure a now st =
     (let st0 = emit (TaskFailedEv (tid (objects st ! a))) st in
      if shouldRetry st0 (objects st0 ! a)
      then let t' = new_Date (of_int now + calculateRetryDelay (the (retryPolicy (config st0))) (objects st0 ! a));
               st1 = modify a (\<lambda>t. t\<lparr>status := PENDING, assignedAgent := None, nextRetryTime := Some t'\<rparr>) st0
           in emit (TaskScheduledRetry (tid (objects st1 ! a)) t') st1
      else foldl (\<lambda>s dependentId.
                   case map_of (tasks s) dependentId of
                     None \<Rightarrow> s
                   | Some d \<Rightarrow>
                       if status (objects s ! d) = PENDING
                       then emit (TaskCascadeFailed dependentId) (modify d (\<lambda>t. t\<lparr>status := FAILED\<rparr>) s)
                       else s)
             st0 (dependents (objects st0 ! a)))"

text \<open>
  \<^verbatim>\<open>assignTaskToAgent\<close>, followed by the part of \<^verbatim>\<open>executeTask\<close> that runs before its
  \<^verbatim>\<open>await agent.execute(task)\<close>: the call is not awaited, so the task is RUNNING when
  \<^verbatim>\<open>assignTaskToAgent\<close> returns.
\<close>

definition assignTaskToAgent :: "nat \<Rightarrow> string \<Rightarrow> int \<Rightarrow> TaskOrchestrator \<Rightarrow> TaskOrchestrator" where
  "assignTaskToAgent a agent now st =
     (let st1 = modify a (\<lambda>t. t\<lparr>assignedAgent := Some agent, status := ASSIGNED,
                                startTime := Some now, attempts := attempts t + 1\<rparr>) st;
          st2 = emit (TaskAssigned (tid (objects st1 ! a)) agent) st1;
          st3 = modify a (\<lambda>t. t\<lparr>status := RUNNING\<rparr>) st2
      in emit (TaskStarted (tid (objects st3 ! a)) agent) st3)"

text \<open>The rest of \<^verbatim>\<open>executeTask\<close>, run when the agent's promise resolves with a result.\<close>

definition executeTask_resolved :: "nat \<Rightarrow> TaskResult \<Rightarrow> int \<Rightarrow> TaskOrchestrator \<Rightarrow> TaskOrchestrator" where
  "executeTask_resolved a result now st =
     (let st1 = modify a (\<lambda>t. t\<lparr>endTime := Some now, status := r_status result,
                                results := results t @ [result]\<rparr>) st
      in if r_status result = COMPLETED
         then handleTaskCompletion a (emit (TaskCompleted (r_taskId result)) st1)
         else handleTaskFailure a now st1)"

text \<open>The \<^verbatim>\<open>catch\<close> branch of \<^verbatim>\<open>executeTask\<close>, run when the agent's promise is rejected.\<close>

definition executeTask_rejected :: "nat \<Rightarrow> string \<Rightarrow> string \<Rightarrow> int \<Rightarrow> TaskOrchestrator \<Rightarrow> TaskOrchestrator" where
  "executeTask_rejected a agent err now st =
     (let st1 = modify a (\<lambda>t. t\<lparr>endTime := Some now, status := FAILED\<rparr>) st;
          result = \<lparr> r_taskId = tid (objects st1 ! a), r_agentId = agent, r_status = FAILED,
                     r_error = Some err, r_timestamp = now \<rparr>;
          st2 = modify a (\<lambda>t. t\<lparr>results := results t @ [result]\<rparr>) st1
      in handleTaskFailure a now st2)"

subsection \<open>The processing tick\<close>

text \<open>\<^verbatim>\<open>processRetries\<close>: a PENDING task whose retry time has come is queued.\<close>

definition processRetries :: "int \<Rightarrow> TaskOrchestrator \<Rightarrow> TaskOrchestrator" where
  "processRetries now st =
     foldl (\<lambda>s a. case nextRetryTime (objects s ! a) of
                     None \<Rightarrow> s
                   | Some t \<Rightarrow>
                       if status (objects s ! a) = PENDING \<and> t \<le> now
                       then let s1 = s\<lparr>queue := queue_add (objects s) a (queue s)\<rparr>;
                                s2 = modify a (\<lambda>t. t\<lparr>nextRetryTime := None\<rparr>) s1
                            in emit (TaskRetry (tid (objects s2 ! a))) s2
                       else s)
       st (map snd (tasks st))"

text \<open>\<^verbatim>\<open>checkDependencies\<close>: a PENDING task with a non-empty dependency set, all of it
  COMPLETED, is queued.\<close>

definition checkDependencies :: "TaskOrchestrator \<Rightarrow> TaskOrchestrator" where
  "checkDependencies st =
     foldl (\<lambda>s a. if status (objects s ! a) = PENDING
                      \<and> length (dependencies (objects s ! a)) > 0
                      \<and> canQueueTask s (objects s ! a)
                   then emit (TaskDependenciesMet (tid (objects s ! a)))
                          (s\<lparr>queue := queue_add (objects s) a (queue s)\<rparr>)
                   else s)
       st (map snd (tasks st))"

text \<open>
  \<^verbatim>\<open>assignTasks\<close>: the loop of the assignment phase, on the list of available agents (at
  first all registered agents). A task the strategy finds no agent for is given back to the
  queue with \<^verbatim>\<open>queue.add\<close>, and the loop breaks.
\<close>

function assignTasks_loop :: "string list \<Rightarrow> int \<Rightarrow> TaskOrchestrator \<Rightarrow> TaskOrchestrator" where
  "assignTasks_loop availableAgents now st =
     (if queue_size (queue st) > 0 \<and> length availableAgents > 0
      then (case queue_getNext (queue st) of
              None \<Rightarrow> st
            | Some (a, q') \<Rightarrow>
                (case strategy (config st) (objects st ! a) availableAgents of
                   Some agent \<Rightarrow>
                     assignTasks_loop (remove1 agent availableAgents) now
                       (assignTaskToAgent a agent now (st\<lparr>queue := q'\<rparr>))
                 | None \<Rightarrow> st\<lparr>queue := queue_add (objects st) a q'\<rparr>))
      else st)"
  by pat_completeness auto

text \<open>Each iteration of the loop takes one task out of the queue, so the loop ends.\<close>

lemma queue_size_getNext:
  "queue_getNext q = Some (a, q') \<Longrightarrow> queue_size q' < queue_size q"
  by (cases q)
     (auto simp: PriorityTaskQueue_getNext_def PriorityTaskQueue_size_def priorityOrder_def
           split: list.splits)

lemma emit_fields [simp]:
  "objects (emit e st) = objects st"
  "tasks (emit e st) = tasks st"
  "queue (emit e st) = queue st"
  "agents (emit e st) = agents st"
  "config (emit e st) = config st"
  "running (emit e st) = running st"
  "emitted (emit e st) = emitted st @ [e]"
  by (simp_all add: emit_def)

lemma modify_fields [simp]:
  "tasks (modify a f st) = tasks st"
  "queue (modify a f st) = queue st"
  "agents (modify a f st) = agents st"
  "config (modify a f st) = config st"
  "running (modify a f st) = running st"
  "emitted (modify a f st) = emitted st"
  "objects (modify a f st) = (objects st)[a := f (objects st ! a)]"
  by (simp_all add: modify_def)

lemma queue_assignTaskToAgent [simp]: "queue (assignTaskToAgent a agent now st) = queue st"
  by (simp add: assignTaskToAgent_def Let_def)

termination assignTasks_loop
  by (relation "measure (\<lambda>(availableAgents, now, st). queue_size (queue st))")
     (auto simp: queue_size_getNext)

definition assignTasks :: "int \<Rightarrow> TaskOrchestrator \<Rightarrow> TaskOrchestrator" where
  "assignTasks now st = assignTasks_loop (agents st) now st"

text \<open>\<^verbatim>\<open>checkTimeouts\<close>: a RUNNING task that started more than \<^verbatim>\<open>timeout\<close> ago gets the
  status TIMEOUT and a result, and is handled as a failure.\<close>

definition checkTimeouts :: "int \<Rightarrow> TaskOrchestrator \<Rightarrow> TaskOrchestrator" where
  "checkTimeouts now st =
     foldl (\<lambda>s a. case startTime (objects s ! a) of
                     None \<Rightarrow> s
                   | Some t0 \<Rightarrow>
                       if status (objects s ! a) = RUNNING \<and> now - t0 > timeout (config s)
                       then let result = \<lparr> r_taskId = tid (objects s ! a),
                                           r_agentId = (case assignedAgent (objects s ! a) of Some g \<Rightarrow> g | None \<Rightarrow> []),
                                           r_status = TIMEOUT,
                                           r_error = Some ''Task execution timeout'',
                                           r_timestamp = now \<rparr>;
                                s1 = modify a (\<lambda>t. t\<lparr>status := TIMEOUT, endTime := Some now,
                                                       results := results t @ [result]\<rparr>) s;
                                s2 = handleTaskFailure a now s1
                            in emit (TaskTimeoutEv (tid (objects s2 ! a))) s2
                       else s)
       st (map snd (tasks st))"

text \<open>\<^verbatim>\<open>processTasks\<close>: one tick, with the clock reading \<open>now\<close>. The four phases are run one
  after the other, none interleaved with another caller.\<close>

definition processTasks :: "int \<Rightarrow> TaskOrchestrator \<Rightarrow> TaskOrchestrator" where
  "processTasks now st =
     (if \<not> running st then st
      else checkTimeouts now (assignTasks now (checkDependencies (processRetries now st))))"

text \<open>The orchestrator as the constructor leaves it, for a given configuration, and the
  configuration the constructor completes from a strategy alone.\<close>

definition new_TaskOrchestrator :: "TaskOrchestratorConfig \<Rightarrow> TaskOrchestrator" where
  "new_TaskOrchestrator cfg =
     \<lparr> config = cfg, objects = [], tasks = [],
       queue = (if priorityQueueEnabled cfg then PriorityQueue (\<lambda>p. []) else SimpleQueue []),
       agents = [], running = False, emitted = [] \<rparr>"

definition defaultConfig :: "(TaskInstance \<Rightarrow> string list \<Rightarrow> string option) \<Rightarrow> TaskOrchestratorConfig" where
  "defaultConfig strat =
     \<lparr> strategy = strat, retryPolicy = Some defaultRetryPolicy, timeout = 300000,
       maxQueueSize = 10000, priorityQueueEnabled = True \<rparr>"

definition start :: "TaskOrchestrator \<Rightarrow> TaskOrchestrator" where
  "start st = (if running st then st else emit EvStarted (st\<lparr>running := True\<rparr>))"

text \<open>The state after a call of \<^verbatim>\<open>submitTask\<close>: a call that throws leaves the state as it
  was.\<close>

definition after_submitTask :: "Task \<Rightarrow> string \<Rightarrow> TaskOrchestrator \<Rightarrow> TaskOrchestrator" where
  "after_submitTask task uuid st = (case submitTask task uuid st of Inr s \<Rightarrow> s | Inl e \<Rightarrow> st)"

subsection \<open>Strategies and states of the examples\<close>

text \<open>Two strategies for the concrete runs below: one takes the first available agent, one
  never finds an agent.\<close>

definition firstAvailable :: "TaskInstance \<Rightarrow> string list \<Rightarrow> string option" where
  "firstAvailable task availableAgents = (case availableAgents of [] \<Rightarrow> None | g # gs \<Rightarrow> Some g)"


definition simpleTask :: "string \<Rightarrow> string list \<Rightarrow> Task" where
  "simpleTask i deps = \<lparr> task_id = i, task_name = i, task_priority = MEDIUM, task_dependencies = deps \<rparr>"

text \<open>A started orchestrator with the default configuration and one registered agent.\<close>

definition ready1 :: "(TaskInstance \<Rightarrow> string list \<Rightarrow> string option) \<Rightarrow> TaskOrchestrator" where
  "ready1 strat = start (registerAgent ''w1'' (new_TaskOrchestrator (defaultConfig strat)))"

text \<open>Task A alone, submitted and assigned to the agent at the tick of time 10: it is RUNNING
  at address 0, on its first attempt.\<close>

definition A_running :: TaskOrchestrator where
  "A_running = processTasks 10 (after_submitTask (simpleTask ''A'' []) ''u1'' (ready1 firstAvailable))"

definition completedResult :: "string \<Rightarrow> string \<Rightarrow> int \<Rightarrow> TaskResult" where
  "completedResult i g now =
     \<lparr> r_taskId = i, r_agentId = g, r_status = COMPLETED, r_error = None, r_timestamp = now \<rparr>"

definition failedResult :: "string \<Rightarrow> string \<Rightarrow> int \<Rightarrow> TaskResult" where
  "failedResult i g now =
     \<lparr> r_taskId = i, r_agentId = g, r_status = FAILED, r_error = Some ''failed'', r_timestamp = now \<rparr>"

text \<open>The position of a priority in \<^verbatim>\<open>priorityOrder\<close>: a smaller rank is a higher tier.\<close>

fun rank :: "Priority \<Rightarrow> nat" where
  "rank CRITICAL = 0" | "rank HIGH = 1" | "rank MEDIUM = 2" | "rank LOW = 3"





text \<open>A configuration whose retry policy allows no retry, and runs on it: every run starts
  with one agent \<open>w1\<close> and assigns task A (address 0) at the tick of time 10.
  \<^item> \<open>fan_out\<close>: A with the dependents B and C (addresses 1 and 2);
  \<^item> \<open>chain\<close>: A, B that depends on A, D that depends on B;
  \<^item> \<open>requeued\<close>: A with the dependent X. The agent of A is unregistered while A runs, so A
    is queued again and assigned to a second agent \<open>w2\<close>; then the first execution resolves
    with COMPLETED (X becomes ready and is queued), and the second one with FAILED.\<close>

definition noRetryConfig :: "(TaskInstance \<Rightarrow> string list \<Rightarrow> string option) \<Rightarrow> TaskOrchestratorConfig" where
  "noRetryConfig strat = (defaultConfig strat)\<lparr>retryPolicy := Some (defaultRetryPolicy\<lparr>maxRetries := 0\<rparr>)\<rparr>"

definition ready1_noRetry :: TaskOrchestrator where
  "ready1_noRetry = start (registerAgent ''w1'' (new_TaskOrchestrator (noRetryConfig firstAvailable)))"

definition fan_out :: TaskOrchestrator where
  "fan_out = processTasks 10
     (after_submitTask (simpleTask ''C'' [''A'']) ''u3''
       (after_submitTask (simpleTask ''B'' [''A'']) ''u2''
         (after_submitTask (simpleTask ''A'' []) ''u1'' ready1_noRetry)))"

definition fan_out_failed :: TaskOrchestrator where
  "fan_out_failed = executeTask_resolved 0 (failedResult ''A'' ''w1'' 20) 20 fan_out"

definition chain :: TaskOrchestrator where
  "chain = processTasks 10
     (after_submitTask (simpleTask ''D'' [''B'']) ''u3''
       (after_submitTask (simpleTask ''B'' [''A'']) ''u2''
         (after_submitTask (simpleTask ''A'' []) ''u1'' ready1_noRetry)))"



section \<open>The coordinator's entry for submission\<close>

datatype SwarmState = SW_INITIALIZING | SW_READY | SW_RUNNING | SW_PAUSED | SW_SCALING
  | SW_COMPLETING | SW_COMPLETED | SW_FAILED | SW_TERMINATED

datatype SwarmError = CannotSubmitTaskInState SwarmState | TaskNameRequired
  | OrchestratorThrew OrchestratorError

text \<open>Of the coordinator: its state and its orchestrator.\<close>

record SwarmCoordinator =
  swarm_state :: SwarmState
  taskOrchestrator :: TaskOrchestrator

text \<open>\<^verbatim>\<open>validateTask\<close>: the name must not be empty. (Its tests of \<^verbatim>\<open>task.type\<close> and
  \<^verbatim>\<open>task.priority\<close> never fire on a value of type \<^verbatim>\<open>Task\<close>: no member of the two enums is
  falsy.)\<close>

definition validateTask :: "Task \<Rightarrow> SwarmError + Task" where
  "validateTask task = (if task_name task = [] then Inl TaskNameRequired else Inr task)"

text \<open>\<^verbatim>\<open>SwarmCoordinator.submitTask\<close>: it returns the task's id. Nothing looks the id up
  before the orchestrator's \<^verbatim>\<open>submitTask\<close> binds it.\<close>

definition SwarmCoordinator_submitTask :: "Task \<Rightarrow> string \<Rightarrow> SwarmCoordinator \<Rightarrow> SwarmError + (string \<times> SwarmCoordinator)" where
  "SwarmCoordinator_submitTask task uuid sc =
     (if swarm_state sc \<noteq> SW_RUNNING then Inl (CannotSubmitTaskInState (swarm_state sc))
      else case validateTask task of
             Inl e \<Rightarrow> Inl e
           | Inr task1 \<Rightarrow>
               let task2 = (if task_id task1 = [] then task1\<lparr>task_id := ''task-'' @ uuid\<rparr> else task1)
               in case submitTask task2 uuid (taskOrchestrator sc) of
                    Inl e \<Rightarrow> Inl (OrchestratorThrew e)
                  | Inr orch \<Rightarrow> Inr (task_id task2, sc\<lparr>taskOrchestrator := orch\<rparr>))"

text \<open>The instance \<^verbatim>\<open>submitTask\<close> creates for a task with an id.\<close>

definition freshInstance :: "Task \<Rightarrow> TaskInstance" where
  "freshInstance task =
     \<lparr> tid = task_id task, priority = task_priority task, status = PENDING,
       assignedAgent = None, attempts = 0, results = [],
       dependencies = new_Set (task_dependencies task), dependents = [],
       startTime = None, endTime = None, nextRetryTime = None \<rparr>"

text \<open>More runs on the configuration without retries.
  \<^item> \<open>chain_AB_done\<close>: in the chain A, B, D, first A and then B were assigned and completed
    (both stay in the task map, each having a dependent);
  \<^item> \<open>swarm_A_running\<close>, \<open>swarm_A_failed\<close>: a running coordinator whose orchestrator holds
    the live task A (RUNNING, first attempt), resp. the task A that failed for good.\<close>

definition chain_AB_done :: TaskOrchestrator where
  "chain_AB_done =
     executeTask_resolved 1 (completedResult ''B'' ''w1'' 40) 40
       (processTasks 30
         (executeTask_resolved 0 (completedResult ''A'' ''w1'' 20) 20 chain))"

definition swarm_A_running :: SwarmCoordinator where
  "swarm_A_running = \<lparr> swarm_state = SW_RUNNING, taskOrchestrator = A_running \<rparr>"

definition swarm_A_failed :: SwarmCoordinator where
  "swarm_A_failed = \<lparr> swarm_state = SW_RUNNING, taskOrchestrator = fan_out_failed \<rparr>"

section \<open>Hive mind: shared knowledge and consensus\<close>

text \<open>
  An entry's confidence is a JavaScript number. The caller gives a finite one; the code
  itself computes \<^verbatim>\<open>votes.size / agents.size\<close>, which is \<^verbatim>\<open>Infinity\<close> when no agent is
  registered (the vote count is positive wherever the division is made).
\<close>

datatype Confidence = Finite rat | Infinity

definition size_ratio :: "nat \<Rightarrow> nat \<Rightarrow> Confidence" where
  "size_ratio n m = (if m = 0 then Infinity else Finite (of_nat n / of_nat m))"

text \<open>\<^verbatim>\<open>x > y\<close> on confidences.\<close>

fun exceeds :: "Confidence \<Rightarrow> Confidence \<Rightarrow> bool" where
  "exceeds (Finite x) (Finite y) = (x > y)"
| "exceeds (Finite x) Infinity = False"
| "exceeds Infinity (Finite y) = True"
| "exceeds Infinity Infinity = False"

subsection \<open>Double-precision arithmetic\<close>

text \<open>
  The consensus code multiplies and divides JavaScript numbers and compares the results, so
  the rounding of IEEE 754 double precision is written out. A finite double is the rational
  it stands for; \<^verbatim>\<open>consensusThreshold\<close> and the confidence of a vote are finite doubles, and
  the sizes of Maps and Sets are integers far below \<open>2 ^ 53\<close>.
\<close>

text \<open>The number of binary digits of a positive integer (0 for the others).\<close>

function bit_length :: "int \<Rightarrow> int" where
  "bit_length n = (if n \<le> 0 then 0 else 1 + bit_length (n div 2))"
  by pat_completeness auto
termination
  by (relation "measure nat") auto

declare bit_length.simps [simp del]

text \<open>For a positive rational \<open>x\<close>, the exponent \<open>e\<close> with \<open>2 powi e \<le> x < 2 powi (e + 1)\<close>.\<close>

definition floor_log2 :: "rat \<Rightarrow> int" where
  "floor_log2 x =
     (let e0 = bit_length (fst (quotient_of x)) - bit_length (snd (quotient_of x))
      in if x < 2 powi e0 then e0 - 1 else e0)"

text \<open>Rounding to the nearest integer, ties to the even one.\<close>

definition round_half_even :: "rat \<Rightarrow> int" where
  "round_half_even x =
     (let f = \<lfloor>x\<rfloor>; d = x - of_int f
      in if d < 1 / 2 then f else if d > 1 / 2 then f + 1 else if even f then f else f + 1)"

text \<open>
  The double nearest to a rational: 53 significant binary digits, no digit below
  \<open>2 powi (- 1074)\<close> (subnormal numbers), ties to even. \<open>to_double\<close> adds the overflow: a
  result of magnitude \<open>2 powi 1024\<close> or more is an infinity.
\<close>

definition nearest_double :: "rat \<Rightarrow> rat" where
  "nearest_double x =
     (if x = 0 then 0
      else let q = max (floor_log2 \<bar>x\<bar> - 52) (- 1074)
           in sgn x * of_int (round_half_even (\<bar>x\<bar> / 2 powi q)) * 2 powi q)"

datatype Number = Num rat | PlusInfinity | MinusInfinity

definition to_double :: "rat \<Rightarrow> Number" where
  "to_double x =
     (let r = nearest_double x
      in if r \<noteq> 0 \<and> floor_log2 \<bar>r\<bar> \<ge> 1024
         then (if x > 0 then PlusInfinity else MinusInfinity) else Num r)"

text \<open>The operators \<^verbatim>\<open>*\<close>, \<^verbatim>\<open>+\<close> and \<^verbatim>\<open>/\<close> on doubles: the exact result, rounded. (A sum with an
  infinity is that infinity; the division is by a positive count.)\<close>

definition double_mult :: "rat \<Rightarrow> rat \<Rightarrow> Number" where
  "double_mult x y = to_double (x * y)"

fun double_add :: "Number \<Rightarrow> rat \<Rightarrow> Number" where
  "double_add (Num x) y = to_double (x + y)"
| "double_add PlusInfinity y = PlusInfinity"
| "double_add MinusInfinity y = MinusInfinity"

fun double_div :: "Number \<Rightarrow> rat \<Rightarrow> Number" where
  "double_div (Num x) y = to_double (x / y)"
| "double_div PlusInfinity y = PlusInfinity"
| "double_div MinusInfinity y = MinusInfinity"

text \<open>\<^verbatim>\<open>x >= y\<close> and \<^verbatim>\<open>x < y\<close> for a finite \<open>x\<close>.\<close>

fun ge_double :: "rat \<Rightarrow> Number \<Rightarrow> bool" where
  "ge_double x (Num y) = (x \<ge> y)"
| "ge_double x PlusInfinity = False"
| "ge_double x MinusInfinity = True"

fun lt_double :: "rat \<Rightarrow> Number \<Rightarrow> bool" where
  "lt_double x (Num y) = (x < y)"
| "lt_double x PlusInfinity = True"
| "lt_double x MinusInfinity = False"


datatype ConsensusStatus = C_PENDING | C_APPROVED | C_REJECTED | C_TIMEOUT

text \<open>The stored values: what a caller shares (an opaque payload, here a string), or
  the record \<open>finalizeConsensus\<close> shares: proposal, status, approval rate and average
  confidence (\<open>None\<close> is \<^verbatim>\<open>NaN\<close>, the quotient 0/0 of a session without votes).\<close>

datatype KnowledgeValue =
    Payload string
  | ConsensusOutcome string ConsensusStatus rat "Number option"

text \<open>\<^verbatim>\<open>KnowledgeEntry\<close>. The votes (a Map from agent ids to \<^verbatim>\<open>true\<close>) are the list of its keys,
  in insertion order and without duplicates. The \<^verbatim>\<open>id\<close> of an entry is never read.\<close>

record KnowledgeEntry =
  k_key :: string
  k_value :: KnowledgeValue
  k_agentId :: string
  k_timestamp :: int
  k_ttl :: "int option"
  k_confidence :: Confidence
  k_votes :: "string list"

record Vote =
  v_agentId :: string
  v_value :: bool
  v_confidence :: rat
  v_reasoning :: "string option"
  v_timestamp :: int

record ConsensusRequest =
  c_id :: string
  c_topic :: string
  c_proposal :: string
  c_requester :: string
  c_timestamp :: int
  c_deadline :: int
  c_votes :: "(string \<times> Vote) list"
  c_status :: ConsensusStatus

record HiveMindConfig =
  consensusThreshold :: rat
  maxMemorySize :: nat

text \<open>
  The state of the hive mind: the three Maps that matter here, as association lists in
  insertion order with one pair per key. The pattern table, the persistence adapter and the
  emitted events are read by none of the operations below and are left out.
\<close>

record HiveMind =
  h_config :: HiveMindConfig
  knowledge :: "(string \<times> KnowledgeEntry) list"
  consensusRequests :: "(string \<times> ConsensusRequest) list"
  h_agents :: "string list"

datatype HiveMindError = InvalidOrCompletedConsensusRequest

definition new_HiveMind :: "HiveMindConfig \<Rightarrow> HiveMind" where
  "new_HiveMind cfg = \<lparr> h_config = cfg, knowledge = [], consensusRequests = [], h_agents = [] \<rparr>"

subsection \<open>Knowledge\<close>

text \<open>\<^verbatim>\<open>mergeKnowledge(existing, new_)\<close>, on the entry stored under the key of the new one
  (\<open>newEntry\<close> is the source's \<^verbatim>\<open>new_\<close>).\<close>

definition mergeKnowledge :: "KnowledgeEntry \<Rightarrow> KnowledgeEntry \<Rightarrow> HiveMind \<Rightarrow> HiveMind" where
  "mergeKnowledge existing newEntry h =
     (let e1 = existing\<lparr>k_votes := Set_add (k_agentId newEntry) (k_votes existing)\<rparr>;
          e2 = e1\<lparr>k_confidence := size_ratio (length (k_votes e1)) (length (h_agents h))\<rparr>;
          e3 = (if exceeds (k_confidence newEntry) (k_confidence e2)
                then e2\<lparr>k_value := k_value newEntry, k_timestamp := k_timestamp newEntry\<rparr>
                else e2)
      in h\<lparr>knowledge := AList.update (k_key newEntry) e3 (knowledge h)\<rparr>)"

text \<open>
  The order \<open>enforceMemoryLimits\<close> sorts by: confidence first (every finite confidence is below
  \<^verbatim>\<open>Infinity\<close>), then the timestamp. \<^verbatim>\<open>Array.prototype.sort\<close> is stable, as \<open>sort_key\<close> is.
\<close>

fun confidence_key :: "Confidence \<Rightarrow> bool \<times> rat" where
  "confidence_key (Finite r) = (False, r)"
| "confidence_key Infinity = (True, 0)"

definition eviction_key :: "string \<times> KnowledgeEntry \<Rightarrow> (bool \<times> rat) \<times> int" where
  "eviction_key ke = (confidence_key (k_confidence (snd ke)), k_timestamp (snd ke))"

text \<open>\<^verbatim>\<open>enforceMemoryLimits\<close>: above the limit, the first \<open>size - maxMemorySize\<close> entries of
  the sorted array are deleted by key.\<close>

definition enforceMemoryLimits :: "HiveMind \<Rightarrow> HiveMind" where
  "enforceMemoryLimits h =
     (if length (knowledge h) \<le> maxMemorySize (h_config h) then h
      else
        let entries = sort_key eviction_key (knowledge h);
            toRemove = take (length entries - maxMemorySize (h_config h)) entries
        in h\<lparr>knowledge := foldl (\<lambda>m ke. AList.delete (fst ke) m) (knowledge h) toRemove\<rparr>)"

text \<open>\<^verbatim>\<open>share(agentId, key, value, confidence, ttl)\<close> at the clock reading \<open>now\<close>.\<close>

definition share :: "string \<Rightarrow> string \<Rightarrow> KnowledgeValue \<Rightarrow> rat \<Rightarrow> int option \<Rightarrow> int \<Rightarrow> HiveMind \<Rightarrow> HiveMind" where
  "share agentId key val confidence ttl now h =
     (let entry = \<lparr> k_key = key, k_value = val, k_agentId = agentId, k_timestamp = now,
                     k_ttl = ttl, k_confidence = Finite confidence, k_votes = [agentId] \<rparr>;
          h1 = (case map_of (knowledge h) key of
                  Some existing \<Rightarrow> mergeKnowledge existing entry h
                | None \<Rightarrow> h\<lparr>knowledge := AList.update key entry (knowledge h)\<rparr>)
      in enforceMemoryLimits h1)"

text \<open>\<^verbatim>\<open>retrieve(key)\<close>: the value, or \<open>None\<close> for \<^verbatim>\<open>null\<close>; an expired entry is deleted. A
  \<^verbatim>\<open>ttl\<close> of 0 is falsy: the entry does not expire.\<close>

definition retrieve :: "string \<Rightarrow> int \<Rightarrow> HiveMind \<Rightarrow> KnowledgeValue option \<times> HiveMind" where
  "retrieve key now h =
     (case map_of (knowledge h) key of
        None \<Rightarrow> (None, h)
      | Some entry \<Rightarrow>
          (case k_ttl entry of
             None \<Rightarrow> (Some (k_value entry), h)
           | Some ttl \<Rightarrow>
               if ttl \<noteq> 0 \<and> now - k_timestamp entry > ttl
               then (None, h\<lparr>knowledge := AList.delete key (knowledge h)\<rparr>)
               else (Some (k_value entry), h)))"

subsection \<open>Agents of the hive\<close>

text \<open>\<^verbatim>\<open>registerAgent\<close>: the agent is added; \<^verbatim>\<open>shareKnowledge\<close> only emits an event.\<close>

definition hive_registerAgent :: "string \<Rightarrow> HiveMind \<Rightarrow> HiveMind" where
  "hive_registerAgent agentId h = h\<lparr>h_agents := Set_add agentId (h_agents h)\<rparr>"

text \<open>\<^verbatim>\<open>unregisterAgent\<close> with \<^verbatim>\<open>cleanupAgentData\<close>: the agent's vote leaves every entry, and
  the confidence is computed again when an agent remains.\<close>

definition cleanupAgentData :: "string \<Rightarrow> HiveMind \<Rightarrow> HiveMind" where
  "cleanupAgentData agentId h =
     h\<lparr>knowledge :=
         map (\<lambda>(k, entry).
                let e1 = entry\<lparr>k_votes := Set_delete agentId (k_votes entry)\<rparr>
                in (k, if length (h_agents h) > 0
                       then e1\<lparr>k_confidence := size_ratio (length (k_votes e1)) (length (h_agents h))\<rparr>
                       else e1))
           (knowledge h)\<rparr>"

definition hive_unregisterAgent :: "string \<Rightarrow> HiveMind \<Rightarrow> HiveMind" where
  "hive_unregisterAgent agentId h = cleanupAgentData agentId (h\<lparr>h_agents := Set_delete agentId (h_agents h)\<rparr>)"

subsection \<open>Consensus\<close>

text \<open>\<^verbatim>\<open>requestConsensus\<close>; \<open>uuid\<close> is the id \<^verbatim>\<open>uuidv4()\<close> returns, and the deadline defaults to
  30 seconds from now. The timer it sets calls \<open>finalizeConsensus\<close> later.\<close>

definition requestConsensus :: "string \<Rightarrow> string \<Rightarrow> string \<Rightarrow> int option \<Rightarrow> string \<Rightarrow> int \<Rightarrow> HiveMind \<Rightarrow> string \<times> HiveMind" where
  "requestConsensus agentId topic proposal deadline uuid now h =
     (let request = \<lparr> c_id = uuid, c_topic = topic, c_proposal = proposal, c_requester = agentId,
                       c_timestamp = now,
                       c_deadline = (case deadline of Some d \<Rightarrow> d | None \<Rightarrow> now + 30000),
                       c_votes = [], c_status = C_PENDING \<rparr>
      in (uuid, h\<lparr>consensusRequests := AList.update uuid request (consensusRequests h)\<rparr>))"

text \<open>\<^verbatim>\<open>finalizeConsensus\<close>: nothing happens unless the request exists and is pending. The
  outcome is shared as knowledge by the pseudo agent \<^verbatim>\<open>hive-mind\<close>.\<close>

definition finalizeConsensus :: "string \<Rightarrow> int \<Rightarrow> HiveMind \<Rightarrow> HiveMind" where
  "finalizeConsensus requestId now h =
     (case map_of (consensusRequests h) requestId of
        None \<Rightarrow> h
      | Some request \<Rightarrow>
          if c_status request \<noteq> C_PENDING then h
          else
            let votes = map snd (c_votes request);
                approvals = length (filter v_value votes);
                totalConfidence = foldl double_add (Num 0) (map v_confidence (filter v_value votes));
                approvalRate = (if length votes > 0
                                then nearest_double (of_nat approvals / of_nat (length votes)) else 0);
                outcome = (if lt_double (of_nat (length votes)) (double_mult (of_nat (length (h_agents h))) (1 / 2))
                           then C_TIMEOUT
                           else if approvalRate \<ge> consensusThreshold (h_config h) then C_APPROVED
                           else C_REJECTED);
                h1 = h\<lparr>consensusRequests :=
                         AList.update requestId (request\<lparr>c_status := outcome\<rparr>) (consensusRequests h)\<rparr>
            in share ''hive-mind'' (''consensus:'' @ c_topic request)
                 (ConsensusOutcome (c_proposal request) outcome approvalRate
                    (if length votes = 0 then None
                     else Some (double_div totalConfidence (of_nat (length votes)))))
                 1 None now h1)"

text \<open>\<^verbatim>\<open>vote\<close>: it throws unless the request exists and is pending; \<^verbatim>\<open>votes.set\<close> stores the
  vote under the agent's id, in the place of an earlier vote of the same agent if there is
  one; when \<^verbatim>\<open>votes.size >= agents.size * consensusThreshold\<close>, a comparison with the
  double-precision product, the request is finalized in the same call.\<close>

definition vote :: "string \<Rightarrow> string \<Rightarrow> bool \<Rightarrow> rat \<Rightarrow> string option \<Rightarrow> int \<Rightarrow> HiveMind \<Rightarrow> HiveMindError + HiveMind" where
  "vote agentId requestId val confidence reasoning now h =
     (case map_of (consensusRequests h) requestId of
        None \<Rightarrow> Inl InvalidOrCompletedConsensusRequest
      | Some request \<Rightarrow>
          if c_status request \<noteq> C_PENDING then Inl InvalidOrCompletedConsensusRequest
          else
            let v = \<lparr> v_agentId = agentId, v_value = val, v_confidence = confidence,
                      v_reasoning = reasoning, v_timestamp = now \<rparr>;
                request1 = request\<lparr>c_votes := AList.update agentId v (c_votes request)\<rparr>;
                h1 = h\<lparr>consensusRequests := AList.update requestId request1 (consensusRequests h)\<rparr>
            in if ge_double (of_nat (length (c_votes request1)))
                    (double_mult (of_nat (length (h_agents h))) (consensusThreshold (h_config h)))
               then Inr (finalizeConsensus requestId now h1)
               else Inr h1)"

text \<open>\<^verbatim>\<open>getConsensusResult\<close>.\<close>

definition getConsensusResult :: "HiveMind \<Rightarrow> string \<Rightarrow> ConsensusRequest option" where
  "getConsensusResult h requestId = map_of (consensusRequests h) requestId"

text \<open>A hive mind with room for three entries; three, then four keys shared by one agent with
  the confidences 0.9, 0.8, 0.2 and 0.7, at the times 1 to 4.\<close>

definition hive3 :: HiveMind where
  "hive3 = new_HiveMind \<lparr> consensusThreshold = 2 / 3, maxMemorySize = 3 \<rparr>"

definition three_shared :: HiveMind where
  "three_shared =
     share ''w1'' ''k3'' (Payload ''v3'') (2 / 10) None 3
       (share ''w1'' ''k2'' (Payload ''v2'') (8 / 10) None 2
         (share ''w1'' ''k1'' (Payload ''v1'') (9 / 10) None 1 hive3))"

definition four_shared :: HiveMind where
  "four_shared = share ''w1'' ''k4'' (Payload ''v4'') (7 / 10) None 4 three_shared"

subsection \<open>Runs of the hive mind\<close>

text \<open>The calls that reach the hive mind: its public operations and \<open>finalizeConsensus\<close>,
  which the deadline timer and the periodic sweep call. A run is a list of calls, each with
  the clock reading it is made at.\<close>

datatype HiveOp =
    OpShare string string KnowledgeValue rat "int option"
  | OpRetrieve string
  | OpRegisterAgent string
  | OpUnregisterAgent string
  | OpRequestConsensus string string string "int option" string
  | OpVote string string bool rat "string option"
  | OpFinalizeConsensus string

text \<open>The state after a call of \<^verbatim>\<open>vote\<close>: a call that throws leaves the state as it was.\<close>

definition after_vote :: "string \<Rightarrow> string \<Rightarrow> bool \<Rightarrow> rat \<Rightarrow> string option \<Rightarrow> int \<Rightarrow> HiveMind \<Rightarrow> HiveMind" where
  "after_vote agentId requestId val confidence reasoning now h =
     (case vote agentId requestId val confidence reasoning now h of Inl e \<Rightarrow> h | Inr h' \<Rightarrow> h')"

fun hive_apply :: "HiveMind \<Rightarrow> int \<times> HiveOp \<Rightarrow> HiveMind" where
  "hive_apply h (now, OpShare agentId key val confidence ttl) = share agentId key val confidence ttl now h"
| "hive_apply h (now, OpRetrieve key) = snd (retrieve key now h)"
| "hive_apply h (now, OpRegisterAgent agentId) = hive_registerAgent agentId h"
| "hive_apply h (now, OpUnregisterAgent agentId) = hive_unregisterAgent agentId h"
| "hive_apply h (now, OpRequestConsensus agentId topic proposal deadline uuid) =
     snd (requestConsensus agentId topic proposal deadline uuid now h)"
| "hive_apply h (now, OpVote agentId requestId val confidence reasoning) =
     after_vote agentId requestId val confidence reasoning now h"
| "hive_apply h (now, OpFinalizeConsensus requestId) = finalizeConsensus requestId now h"

text \<open>A call that is not a \<^verbatim>\<open>requestConsensus\<close> creating the id \<open>i\<close> (ids are fresh
  UUIDs: no later request is given the id of an earlier one).\<close>

fun requests_other_id :: "string \<Rightarrow> int \<times> HiveOp \<Rightarrow> bool" where
  "requests_other_id i (now, OpRequestConsensus agentId topic proposal deadline uuid) = (uuid \<noteq> i)"
| "requests_other_id i (now, opn) = True"

text \<open>Four registered agents, a threshold of three quarters, and the session \<open>s1\<close>. Agent a
  votes yes, then votes again, no; then b and c vote yes, which makes three votes.\<close>

definition hive4 :: HiveMind where
  "hive4 =
     hive_registerAgent ''d'' (hive_registerAgent ''c'' (hive_registerAgent ''b''
       (hive_registerAgent ''a'' (new_HiveMind \<lparr> consensusThreshold = 3 / 4, maxMemorySize = 100 \<rparr>))))"

definition session_open :: HiveMind where
  "session_open = snd (requestConsensus ''a'' ''topic'' ''proposal'' None ''s1'' 0 hive4)"

definition voted_a :: HiveMind where
  "voted_a = after_vote ''a'' ''s1'' True 1 None 1 session_open"

definition voted_abc :: HiveMind where
  "voted_abc =
     after_vote ''c'' ''s1'' True 1 None 4
       (after_vote ''b'' ''s1'' True 1 None 3
         (after_vote ''a'' ''s1'' False 1 None 2 voted_a))"

text \<open>Twenty-five registered agents, the threshold 0.28 (the double nearest to it) and the
  session \<open>s1\<close>; \<open>votes25 k\<close> is the state after the first \<open>k\<close> agents have voted yes.\<close>

definition agentName :: "nat \<Rightarrow> string" where
  "agentName i = replicate (Suc i) (CHR ''w'')"

definition session25 :: HiveMind where
  "session25 =
     snd (requestConsensus (agentName 0) ''topic'' ''proposal'' None ''s1'' 0
       (foldl (\<lambda>h i. hive_registerAgent (agentName i) h)
          (new_HiveMind \<lparr> consensusThreshold = nearest_double (28 / 100), maxMemorySize = 100 \<rparr>)
          [0..<25]))"

definition votes25 :: "nat \<Rightarrow> HiveMind" where
  "votes25 k = foldl (\<lambda>h i. after_vote (agentName i) ''s1'' True 1 None (int i) h) session25 [0..<k]"

text \<open>Two registered agents; a1 shares the key k with confidence 0.9, then a2 shares the
  same key with confidence 0.8.\<close>

definition hive2 :: HiveMind where
  "hive2 = hive_registerAgent ''a2'' (hive_registerAgent ''a1''
             (new_HiveMind \<lparr> consensusThreshold = 2 / 3, maxMemorySize = 100 \<rparr>))"

definition first_shared :: HiveMind where
  "first_shared = share ''a1'' ''k'' (Payload ''v'') (9 / 10) None 1 hive2"

definition both_shared :: HiveMind where
  "both_shared = share ''a2'' ''k'' (Payload ''w'') (8 / 10) None 2 first_shared"

section \<open>Properties of the task orchestrator\<close>

text \<open>
  Claim C9, as the code has it: for every id that is not in the task map,
  \<open>getTaskStatus\<close> answers with the ordinary lifecycle state CANCELLED and
  \<open>getTaskResult\<close> answers with null; neither reports an error.
\<close>

theorem C9_unknown_id_is_cancelled:
  "map_of (tasks st) taskId = None \<Longrightarrow>
     getTaskStatus st taskId = CANCELLED \<and> getTaskResult st taskId = None"
  by (simp add: getTaskStatus_def getTaskResult_def)

theorem C9_unknown_id_is_cancelled_witness:
  "map_of (tasks (new_TaskOrchestrator (defaultConfig firstAvailable))) ''nope'' = None
   \<and> getTaskStatus (new_TaskOrchestrator (defaultConfig firstAvailable)) ''nope'' = CANCELLED
   \<and> getTaskResult (new_TaskOrchestrator (defaultConfig firstAvailable)) ''nope'' = None"
  using C9_unknown_id_is_cancelled [of "new_TaskOrchestrator (defaultConfig firstAvailable)" "''nope''"]
  by (simp add: new_TaskOrchestrator_def)

theorem C9_unknown_id_counterexample:
  "map_of (tasks (ready1 firstAvailable)) ''nope'' = None
   \<and> getTaskStatus (ready1 firstAvailable) ''nope'' = CANCELLED"
  by code_simp

text \<open>
  The delay before the retry of a task that has failed on its first attempt
  (\<open>attempts = 1\<close>, counted up by \<open>assignTaskToAgent\<close>): half the initial delay under
  EXPONENTIAL, zero under LINEAR.
\<close>

lemma calculateRetryDelay_first_attempt:
  "attempts task = 1 \<Longrightarrow>
     calculateRetryDelay (policy\<lparr>backoffStrategy := EXPONENTIAL\<rparr>) task
       = min (initialDelay policy / 2) (maxDelay policy)
   \<and> calculateRetryDelay (policy\<lparr>backoffStrategy := LINEAR\<rparr>) task = min 0 (maxDelay policy)
   \<and> calculateRetryDelay (policy\<lparr>backoffStrategy := CONSTANT\<rparr>) task
       = min (initialDelay policy) (maxDelay policy)"
  by (simp add: calculateRetryDelay_def)

text \<open>
  Claim C3 at a failing input. Task A fails on its first attempt, at time 20, under the
  default policy (EXPONENTIAL, initial delay 1000, maximal delay 60000, 3 retries): the
  retry is scheduled (the task is PENDING again) 500 ms later and not 1000 ms later; under
  the LINEAR strategy the delay is 0.
\<close>

theorem C3_first_retry_delay_not_initialDelay:
  "attempts (objects A_running ! 0) = 1
   \<and> calculateRetryDelay defaultRetryPolicy (objects A_running ! 0) = 500
   \<and> calculateRetryDelay (defaultRetryPolicy\<lparr>backoffStrategy := LINEAR\<rparr>) (objects A_running ! 0) = 0
   \<and> status (objects (executeTask_rejected 0 ''w1'' ''boom'' 20 A_running) ! 0) = PENDING
   \<and> nextRetryTime (objects (executeTask_rejected 0 ''w1'' ''boom'' 20 A_running) ! 0) = Some 520"
  by code_simp

text \<open>A task without dependents is deleted from the task map by \<open>handleTaskCompletion\<close>.\<close>

lemma handleTaskCompletion_no_dependents:
  "dependents (objects st ! a) = [] \<Longrightarrow>
     handleTaskCompletion a st = st\<lparr>tasks := AList.delete (tid (objects st ! a)) (tasks st)\<rparr>"
  by (simp add: handleTaskCompletion_def)

text \<open>
  Claim C10: when the execution of a task (the object at address \<open>a\<close>) resolves with a
  COMPLETED result and the task has no dependents, \<open>handleTaskCompletion\<close> deletes the
  task's id from the task map at once. The object has the status COMPLETED and holds the
  result, but \<open>getTaskResult\<close> on the id returns null, and \<open>getTaskStatus\<close> returns
  CANCELLED, not COMPLETED.
\<close>

theorem C10_completed_without_dependents_is_forgotten:
  assumes "a < length (objects st)" and "dependents (objects st ! a) = []"
    and "r_status result = COMPLETED"
  shows "map_of (tasks (handleTaskCompletion a st)) (tid (objects st ! a)) = None
    \<and> (let st' = executeTask_resolved a result now st; i = tid (objects st ! a)
       in status (objects st' ! a) = COMPLETED
        \<and> results (objects st' ! a) = results (objects st ! a) @ [result]
        \<and> map_of (tasks st') i = None
        \<and> getTaskResult st' i = None
        \<and> getTaskStatus st' i = CANCELLED)"
  using assms
  by (simp add: executeTask_resolved_def handleTaskCompletion_no_dependents Let_def
        getTaskResult_def getTaskStatus_def delete_conv')

theorem C10_completed_without_dependents_is_forgotten_witness:
  "getTaskStatus A_running ''A'' = RUNNING
   \<and> status (objects (executeTask_resolved 0 (completedResult ''A'' ''w1'' 20) 20 A_running) ! 0) = COMPLETED
   \<and> getTaskResult (executeTask_resolved 0 (completedResult ''A'' ''w1'' 20) 20 A_running) ''A'' = None
   \<and> getTaskStatus (executeTask_resolved 0 (completedResult ''A'' ''w1'' 20) 20 A_running) ''A'' = CANCELLED"
proof -
  have h1: "0 < length (objects A_running)" by code_simp
  have h2: "dependents (objects A_running ! 0) = []" by code_simp
  have h3: "r_status (completedResult ''A'' ''w1'' 20) = COMPLETED" by code_simp
  have h4: "tid (objects A_running ! 0) = ''A''" by code_simp
  have h5: "getTaskStatus A_running ''A'' = RUNNING" by code_simp
  from C10_completed_without_dependents_is_forgotten [OF h1 h2 h3, of 20] h4 h5
  show ?thesis by (simp add: Let_def)
qed

lemma rank_priorityOrder: "priorityOrder ! rank p = p"
  by (cases p) (simp_all add: priorityOrder_def)







lemma shouldRetry_emit [simp]: "shouldRetry (emit e st) t = shouldRetry st t"
  by (simp add: shouldRetry_def)

lemma nth_list_update_total:
  "(xs[i := v]) ! j = (if i = j \<and> i < length xs then v else xs ! j)"
  by (cases "i < length xs") (auto simp: nth_list_update list_update_beyond)










text \<open>\<open>updateDependencyGraph\<close> changes nothing but the dependents of stored tasks.\<close>

lemma updateDependencyGraph_fold:
  fixes st :: TaskOrchestrator and a :: nat
  defines "step \<equiv> (\<lambda>s depId. case map_of (tasks s) depId of
                         None \<Rightarrow> s
                       | Some d \<Rightarrow> modify d (\<lambda>t. t\<lparr>dependents := Set_add (tid (objects s ! a)) (dependents t)\<rparr>) s)"
  shows "tasks (foldl step st ds) = tasks st \<and> queue (foldl step st ds) = queue st
       \<and> config (foldl step st ds) = config st
       \<and> length (objects (foldl step st ds)) = length (objects st)
       \<and> (\<forall>x < length (objects st).
            (objects (foldl step st ds) ! x)\<lparr>dependents := []\<rparr> = (objects st ! x)\<lparr>dependents := []\<rparr>
          \<and> (x \<notin> set (List.map_filter (map_of (tasks st)) ds)
               \<longrightarrow> objects (foldl step st ds) ! x = objects st ! x))"
proof (induction ds arbitrary: st)
  case Nil
  then show ?case by simp
next
  case (Cons d ds)
  let ?s1 = "step st d"
  have t1: "tasks ?s1 = tasks st" and q1: "queue ?s1 = queue st" and c1: "config ?s1 = config st"
    and l1: "length (objects ?s1) = length (objects st)"
    by (simp_all add: step_def split: option.splits)
  have o1: "(objects ?s1 ! x)\<lparr>dependents := []\<rparr> = (objects st ! x)\<lparr>dependents := []\<rparr>"
    and o2: "map_of (tasks st) d \<noteq> Some x \<Longrightarrow> objects ?s1 ! x = objects st ! x"
    if "x < length (objects st)" for x
    using that by (auto simp: step_def nth_list_update_total split: option.splits)
  from Cons.IH [of ?s1] t1 q1 l1 c1
  have ih: "tasks (foldl step ?s1 ds) = tasks st" "queue (foldl step ?s1 ds) = queue st"
    "config (foldl step ?s1 ds) = config st"
    "length (objects (foldl step ?s1 ds)) = length (objects st)"
    "\<And>x. x < length (objects st) \<Longrightarrow>
       (objects (foldl step ?s1 ds) ! x)\<lparr>dependents := []\<rparr> = (objects ?s1 ! x)\<lparr>dependents := []\<rparr>"
    "\<And>x. x < length (objects st) \<Longrightarrow> x \<notin> set (List.map_filter (map_of (tasks st)) ds)
        \<Longrightarrow> objects (foldl step ?s1 ds) ! x = objects ?s1 ! x"
    by simp_all
  show ?case
    using ih(1,2,3,4) by (auto simp: ih(5) ih(6) o1 o2 split: option.splits)
qed


lemma updateDependencyGraph_effect:
  "tasks (updateDependencyGraph a st) = tasks st
   \<and> queue (updateDependencyGraph a st) = queue st
   \<and> config (updateDependencyGraph a st) = config st
   \<and> length (objects (updateDependencyGraph a st)) = length (objects st)
   \<and> (\<forall>x < length (objects st).
        (objects (updateDependencyGraph a st) ! x)\<lparr>dependents := []\<rparr> = (objects st ! x)\<lparr>dependents := []\<rparr>)"
  using updateDependencyGraph_fold [of a st "dependencies (objects st ! a)"]
  by (simp add: updateDependencyGraph_def)

lemma submitTask_fresh:
  assumes "int (queue_size (queue st)) < maxQueueSize (config st)" and "task_id task \<noteq> []"
  shows "\<exists>st'. submitTask task uuid st = Inr st'
          \<and> map_of (tasks st') (task_id task) = Some (length (objects st))
          \<and> length (objects st') = Suc (length (objects st))
          \<and> (objects st' ! length (objects st))\<lparr>dependents := []\<rparr> = freshInstance task
          \<and> (\<forall>x < length (objects st).
                (objects st' ! x)\<lparr>dependents := []\<rparr> = (objects st ! x)\<lparr>dependents := []\<rparr>)"
proof -
  let ?a = "length (objects st)"
  let ?st1 = "st\<lparr>objects := objects st @ [freshInstance task],
                  tasks := AList.update (task_id task) ?a (tasks st)\<rparr>"
  let ?st2 = "updateDependencyGraph ?a ?st1"
  from updateDependencyGraph_effect [of ?a ?st1]
  have t2: "tasks ?st2 = AList.update (task_id task) ?a (tasks st)"
    and l2: "length (objects ?st2) = Suc ?a"
    and o2: "\<And>x. x < Suc ?a \<Longrightarrow>
               (objects ?st2 ! x)\<lparr>dependents := []\<rparr> = ((objects st @ [freshInstance task]) ! x)\<lparr>dependents := []\<rparr>"
    by simp_all
  have new: "(objects ?st2 ! ?a)\<lparr>dependents := []\<rparr> = freshInstance task"
    using o2 [of ?a] by (simp add: freshInstance_def)
  have old: "(objects ?st2 ! x)\<lparr>dependents := []\<rparr> = (objects st ! x)\<lparr>dependents := []\<rparr>"
    if "x < ?a" for x
    using o2 [of x] that by (simp add: nth_append)
  have m: "map_of (tasks ?st2) (task_id task) = Some ?a"
    by (simp add: t2 update_conv')
  have eq: "submitTask task uuid st =
     (if canQueueTask ?st2 (objects ?st2 ! ?a)
      then Inr (emit (TaskQueued (task_id task)) (?st2\<lparr>queue := queue_add (objects ?st2) ?a (queue ?st2)\<rparr>))
      else Inr (emit (TaskWaiting (task_id task)) ?st2))"
    using assms by (simp add: submitTask_def Let_def freshInstance_def)
  show ?thesis
    using m l2 new old by (cases "canQueueTask ?st2 (objects ?st2 ! ?a)") (simp_all add: eq)
qed

text \<open>
  Claim C5, as the code has it. A submission with an id is accepted whenever the coordinator
  is running, the task has a name and the queue is not full, whether or not the id is
  already in the task map, and whatever the status of the task it names: the call returns
  the id, and the id is bound to a new instance with the status PENDING, no attempts, no
  results, no assigned agent and the dependencies of the submitted task.
\<close>

theorem C5_submit_binds_id_to_fresh_instance:
  assumes "swarm_state sc = SW_RUNNING" and "task_name task \<noteq> []" and "task_id task \<noteq> []"
    and "int (queue_size (queue (taskOrchestrator sc))) < maxQueueSize (config (taskOrchestrator sc))"
  shows "\<exists>sc'. SwarmCoordinator_submitTask task uuid sc = Inr (task_id task, sc')
          \<and> (let st = taskOrchestrator sc; st' = taskOrchestrator sc'; a = length (objects st)
             in map_of (tasks st') (task_id task) = Some a
              \<and> status (objects st' ! a) = PENDING
              \<and> attempts (objects st' ! a) = 0
              \<and> results (objects st' ! a) = []
              \<and> dependencies (objects st' ! a) = new_Set (task_dependencies task)
              \<and> assignedAgent (objects st' ! a) = None)"
proof -
  from submitTask_fresh [OF assms(4,3), of uuid] obtain st' where
    s: "submitTask task uuid (taskOrchestrator sc) = Inr st'"
    and m: "map_of (tasks st') (task_id task) = Some (length (objects (taskOrchestrator sc)))"
    and f: "(objects st' ! length (objects (taskOrchestrator sc)))\<lparr>dependents := []\<rparr> = freshInstance task"
    by blast
  let ?o = "objects st' ! length (objects (taskOrchestrator sc))"
  have "status (?o\<lparr>dependents := []\<rparr>) = PENDING" "attempts (?o\<lparr>dependents := []\<rparr>) = 0"
    "results (?o\<lparr>dependents := []\<rparr>) = []"
    "dependencies (?o\<lparr>dependents := []\<rparr>) = new_Set (task_dependencies task)"
    "assignedAgent (?o\<lparr>dependents := []\<rparr>) = None"
    unfolding f by (simp_all add: freshInstance_def)
  then have fields: "status ?o = PENDING" "attempts ?o = 0" "results ?o = []"
    "dependencies ?o = new_Set (task_dependencies task)" "assignedAgent ?o = None"
    by simp_all
  have "SwarmCoordinator_submitTask task uuid sc
          = Inr (task_id task, sc\<lparr>taskOrchestrator := st'\<rparr>)"
    using assms(1,2,3) s by (simp add: SwarmCoordinator_submitTask_def validateTask_def)
  with m fields show ?thesis by (simp add: Let_def)
qed


theorem C5_submit_binds_id_to_fresh_instance_witness:
  "getTaskStatus (taskOrchestrator swarm_A_running) ''A'' = RUNNING
   \<and> (\<exists>sc'. SwarmCoordinator_submitTask (simpleTask ''A'' []) ''u9'' swarm_A_running = Inr (''A'', sc')
            \<and> getTaskStatus (taskOrchestrator sc') ''A'' = PENDING
            \<and> getTaskResult (taskOrchestrator sc') ''A'' = None)"
proof -
  have h1: "swarm_state swarm_A_running = SW_RUNNING" by code_simp
  have h2: "task_name (simpleTask ''A'' []) \<noteq> []" by code_simp
  have h3: "task_id (simpleTask ''A'' []) \<noteq> []" by code_simp
  have h4: "int (queue_size (queue (taskOrchestrator swarm_A_running)))
              < maxQueueSize (config (taskOrchestrator swarm_A_running))" by code_simp
  have h5: "getTaskStatus (taskOrchestrator swarm_A_running) ''A'' = RUNNING" by code_simp
  have i: "task_id (simpleTask ''A'' []) = ''A''" by code_simp
  from C5_submit_binds_id_to_fresh_instance [OF h1 h2 h3 h4, of "''u9''"] h5
  show ?thesis
    unfolding i by (auto simp: Let_def getTaskStatus_def getTaskResult_def)
qed

text \<open>
  Against claim C5 as stated. Task A is live (RUNNING, on its first attempt): submitting A
  again returns the id, and the task stored under A is now PENDING with no attempts, while
  the running instance is still in the store, out of the map's reach. Task A is terminal
  (FAILED, with a result): submitting A again is not rejected; it returns the id, and the
  task stored under A is PENDING and has lost its result.
\<close>

theorem C5_submit_counterexample:
  "getTaskStatus (taskOrchestrator swarm_A_running) ''A'' = RUNNING
   \<and> attempts (objects (taskOrchestrator swarm_A_running) ! 0) = 1
   \<and> (case SwarmCoordinator_submitTask (simpleTask ''A'' []) ''u9'' swarm_A_running of
        Inl e \<Rightarrow> False
      | Inr (i, sc') \<Rightarrow>
          i = ''A''
          \<and> getTaskStatus (taskOrchestrator sc') ''A'' = PENDING
          \<and> map_of (tasks (taskOrchestrator sc')) ''A'' = Some 1
          \<and> attempts (objects (taskOrchestrator sc') ! 1) = 0
          \<and> status (objects (taskOrchestrator sc') ! 0) = RUNNING)
   \<and> getTaskStatus (taskOrchestrator swarm_A_failed) ''A'' = FAILED
   \<and> map_option r_status (getTaskResult (taskOrchestrator swarm_A_failed) ''A'') = Some FAILED
   \<and> (case SwarmCoordinator_submitTask (simpleTask ''A'' []) ''u9'' swarm_A_failed of
        Inl e \<Rightarrow> False
      | Inr (i, sc') \<Rightarrow>
          i = ''A''
          \<and> getTaskStatus (taskOrchestrator sc') ''A'' = PENDING
          \<and> getTaskResult (taskOrchestrator sc') ''A'' = None)"
  by code_simp

text \<open>
  Claim C4 at failing inputs. In the chain A, B, D with A and B both COMPLETED,
  \<open>cancelTask\<close> on A sets A to CANCELLED and, through the dependents of A, the COMPLETED
  task B as well. A task that is FAILED after its retries are exhausted (A in the graph
  A \<rightarrow> {B, C}) is set to CANCELLED too, and so are its FAILED dependents.
\<close>

theorem C4_cancelTask_overwrites_terminal_status:
  "getTaskStatus chain_AB_done ''A'' = COMPLETED
   \<and> getTaskStatus chain_AB_done ''B'' = COMPLETED
   \<and> map_option (\<lambda>s. (getTaskStatus s ''A'', getTaskStatus s ''B'', getTaskStatus s ''D''))
        (cancelTask 10 ''A'' chain_AB_done) = Some (CANCELLED, CANCELLED, CANCELLED)
   \<and> getTaskStatus fan_out_failed ''A'' = FAILED
   \<and> getTaskStatus fan_out_failed ''B'' = FAILED
   \<and> map_option (\<lambda>s. (getTaskStatus s ''A'', getTaskStatus s ''B''))
        (cancelTask 10 ''A'' fan_out_failed) = Some (CANCELLED, CANCELLED)"
  by code_simp



section \<open>Properties of the hive mind\<close>

lemma foldl_delete_filter:
  "foldl (\<lambda>m ke. AList.delete (fst ke) m) m rs = filter (\<lambda>kv. fst kv \<notin> fst ` set rs) m"
proof (induction rs arbitrary: m)
  case Nil
  then show ?case by simp
next
  case (Cons r rs)
  have "AList.delete (fst r) m = filter (\<lambda>kv. fst kv \<noteq> fst r) m"
    by (induction m) auto
  then show ?case
    using Cons.IH [of "AList.delete (fst r) m"] by (auto intro: filter_cong)
qed

lemma eviction_key_le:
  "eviction_key r \<le> eviction_key k \<longleftrightarrow>
     exceeds (k_confidence (snd k)) (k_confidence (snd r))
     \<or> (k_confidence (snd r) = k_confidence (snd k) \<and> k_timestamp (snd r) \<le> k_timestamp (snd k))"
  by (cases "k_confidence (snd r)"; cases "k_confidence (snd k)")
     (auto simp: eviction_key_def less_eq_prod_def less_prod_def)

lemma enforceMemoryLimits_over:
  assumes d: "distinct (map fst (knowledge h))"
    and over: "length (knowledge h) > maxMemorySize (h_config h)"
  defines "sorted_entries \<equiv> sort_key eviction_key (knowledge h)"
  defines "n \<equiv> length (knowledge h) - maxMemorySize (h_config h)"
  shows "knowledge (enforceMemoryLimits h)
           = filter (\<lambda>kv. kv \<notin> set (take n sorted_entries)) (knowledge h)"
    and "set (knowledge (enforceMemoryLimits h)) = set (drop n sorted_entries)"
    and "length (knowledge (enforceMemoryLimits h)) = maxMemorySize (h_config h)"
proof -
  have dk: "distinct (knowledge h)" using d by (simp add: distinct_map)
  have ds: "distinct sorted_entries" using dk by (simp add: sorted_entries_def)
  have ss: "set sorted_entries = set (knowledge h)" by (simp add: sorted_entries_def)
  have ls: "length sorted_entries = length (knowledge h)" by (simp add: sorted_entries_def)
  have inj: "fst kv \<notin> fst ` set (take n sorted_entries) \<longleftrightarrow> kv \<notin> set (take n sorted_entries)"
    if "kv \<in> set (knowledge h)" for kv
  proof
    assume "fst kv \<notin> fst ` set (take n sorted_entries)"
    then show "kv \<notin> set (take n sorted_entries)" by force
  next
    assume a: "kv \<notin> set (take n sorted_entries)"
    show "fst kv \<notin> fst ` set (take n sorted_entries)"
    proof
      assume "fst kv \<in> fst ` set (take n sorted_entries)"
      then obtain kv' where kv': "kv' \<in> set (take n sorted_entries)" "fst kv' = fst kv" by auto
      then have "kv' \<in> set (knowledge h)" using ss by (metis in_set_takeD)
      with that kv'(2) d have "kv' = kv" by (metis eq_key_imp_eq_value prod.collapse)
      with kv'(1) a show False by simp
    qed
  qed
  have k: "knowledge (enforceMemoryLimits h)
           = filter (\<lambda>kv. kv \<notin> set (take n sorted_entries)) (knowledge h)"
  proof -
    have "filter (\<lambda>kv. fst kv \<notin> fst ` set (take n sorted_entries)) (knowledge h)
            = filter (\<lambda>kv. kv \<notin> set (take n sorted_entries)) (knowledge h)"
      by (rule filter_cong) (simp_all add: inj)
    then show ?thesis
      using over
      by (simp add: enforceMemoryLimits_def Let_def foldl_delete_filter sorted_entries_def n_def)
  qed
  show "knowledge (enforceMemoryLimits h)
           = filter (\<lambda>kv. kv \<notin> set (take n sorted_entries)) (knowledge h)" by (rule k)
  have "set (take n sorted_entries) \<inter> set (drop n sorted_entries) = {}"
    using ds by (metis append_take_drop_id distinct_append)
  moreover have "set (take n sorted_entries) \<union> set (drop n sorted_entries) = set (knowledge h)"
    using ss by (metis append_take_drop_id set_append)
  ultimately show s: "set (knowledge (enforceMemoryLimits h)) = set (drop n sorted_entries)"
    unfolding k by auto
  have "distinct (knowledge (enforceMemoryLimits h))" unfolding k using dk by simp
  then have "length (knowledge (enforceMemoryLimits h)) = card (set (drop n sorted_entries))"
    using s by (metis distinct_card)
  also have "\<dots> = length (drop n sorted_entries)"
    using ds by (simp add: distinct_card)
  also have "\<dots> = maxMemorySize (h_config h)"
    using over by (simp add: ls n_def)
  finally show "length (knowledge (enforceMemoryLimits h)) = maxMemorySize (h_config h)" .
qed

text \<open>
  Claim C8. Whenever the knowledge map (one entry per key) holds more than
  \<open>maxMemorySize\<close> entries, \<open>enforceMemoryLimits\<close> leaves exactly \<open>maxMemorySize\<close> of
  them, and every removed entry is below every kept one: its confidence is lower, or the
  confidences are equal and it is not younger.
\<close>

theorem C8_eviction_removes_lowest_confidence_then_oldest:
  assumes "distinct (map fst (knowledge h))"
    and "length (knowledge h) > maxMemorySize (h_config h)"
  shows "length (knowledge (enforceMemoryLimits h)) = maxMemorySize (h_config h)
       \<and> set (knowledge (enforceMemoryLimits h)) \<subseteq> set (knowledge h)
       \<and> (\<forall>r \<in> set (knowledge h) - set (knowledge (enforceMemoryLimits h)).
            \<forall>k \<in> set (knowledge (enforceMemoryLimits h)).
              exceeds (k_confidence (snd k)) (k_confidence (snd r))
              \<or> (k_confidence (snd r) = k_confidence (snd k)
                  \<and> k_timestamp (snd r) \<le> k_timestamp (snd k)))"
proof -
  let ?s = "sort_key eviction_key (knowledge h)"
  let ?n = "length (knowledge h) - maxMemorySize (h_config h)"
  note e = enforceMemoryLimits_over [OF assms]
  have sub: "set (knowledge (enforceMemoryLimits h)) \<subseteq> set (knowledge h)"
    unfolding e(1) by auto
  have "sorted (map eviction_key (take ?n ?s @ drop ?n ?s))" by simp
  then have le: "eviction_key r \<le> eviction_key k"
    if "r \<in> set (take ?n ?s)" "k \<in> set (drop ?n ?s)" for r k
    using that unfolding map_append sorted_append by auto
  have "r \<in> set (take ?n ?s)"
    if "r \<in> set (knowledge h) - set (knowledge (enforceMemoryLimits h))" for r
    using that unfolding e(1) by auto
  with le e(2) have "eviction_key r \<le> eviction_key k"
    if "r \<in> set (knowledge h) - set (knowledge (enforceMemoryLimits h))"
       "k \<in> set (knowledge (enforceMemoryLimits h))" for r k
    using that by blast
  then show ?thesis
    using e(3) sub by (auto simp: eviction_key_le)
qed


text \<open>With room for 3 entries, four keys are shared with the confidences 0.9, 0.8, 0.2 and
  0.7: the entry of confidence 0.2 is the one evicted, and only its key is absent.\<close>

theorem C8_eviction_removes_lowest_confidence_then_oldest_witness:
  "length (knowledge four_shared) = 3
   \<and> fst (retrieve ''k3'' 5 four_shared) = None
   \<and> fst (retrieve ''k1'' 5 four_shared) = Some (Payload ''v1'')
   \<and> fst (retrieve ''k2'' 5 four_shared) = Some (Payload ''v2'')
   \<and> fst (retrieve ''k4'' 5 four_shared) = Some (Payload ''v4'')"
proof -
  let ?entry = "\<lparr> k_key = ''k4'', k_value = Payload ''v4'', k_agentId = ''w1'', k_timestamp = 4,
                   k_ttl = None, k_confidence = Finite (7 / 10), k_votes = [''w1''] \<rparr>"
  let ?pre = "three_shared\<lparr>knowledge := AList.update ''k4'' ?entry (knowledge three_shared)\<rparr>"
  have new: "map_of (knowledge three_shared) ''k4'' = None" by code_simp
  have run: "four_shared = enforceMemoryLimits ?pre"
    by (simp add: four_shared_def share_def new)
  have h1: "distinct (map fst (knowledge ?pre))" by code_simp
  have h2: "length (knowledge ?pre) > maxMemorySize (h_config ?pre)" by code_simp
  have m: "maxMemorySize (h_config ?pre) = 3" by code_simp
  have len: "length (knowledge four_shared) = 3"
    using C8_eviction_removes_lowest_confidence_then_oldest [OF h1 h2] unfolding run m by simp
  have rest: "fst (retrieve ''k3'' 5 four_shared) = None"
    "fst (retrieve ''k1'' 5 four_shared) = Some (Payload ''v1'')"
    "fst (retrieve ''k2'' 5 four_shared) = Some (Payload ''v2'')"
    "fst (retrieve ''k4'' 5 four_shared) = Some (Payload ''v4'')"
    by code_simp+
  from len rest show ?thesis by simp
qed

lemma enforceMemoryLimits_fields [simp]:
  "consensusRequests (enforceMemoryLimits h) = consensusRequests h"
  "h_agents (enforceMemoryLimits h) = h_agents h"
  "h_config (enforceMemoryLimits h) = h_config h"
  by (simp_all add: enforceMemoryLimits_def Let_def)

lemma share_fields [simp]:
  "consensusRequests (share agentId key val confidence ttl now h) = consensusRequests h"
  "h_agents (share agentId key val confidence ttl now h) = h_agents h"
  "h_config (share agentId key val confidence ttl now h) = h_config h"
  by (simp_all add: share_def mergeKnowledge_def Let_def split: option.splits)

text \<open>The pieces of the rounding do what they are called: \<open>floor_log2\<close> gives the binary
  exponent of a positive rational, and \<open>round_half_even\<close> an integer at distance 1/2 at
  most.\<close>

lemma bit_length_pos: "n > 0 \<Longrightarrow> bit_length n > 0"
proof (induction n rule: bit_length.induct)
  case (1 n)
  have "bit_length (n div 2) \<ge> 0"
  proof (cases "n div 2 \<le> 0")
    case True
    then show ?thesis by (subst bit_length.simps) simp
  next
    case False
    with 1 show ?thesis by simp
  qed
  with 1(2) show ?case by (subst bit_length.simps) simp
qed

lemma bit_length_bounds:
  "n > 0 \<Longrightarrow> 2 ^ nat (bit_length n - 1) \<le> n \<and> n < 2 ^ nat (bit_length n)"
proof (induction n rule: bit_length.induct)
  case (1 n)
  have b: "bit_length n = 1 + bit_length (n div 2)" using 1(2) by (subst bit_length.simps) simp
  show ?case
  proof (cases "n div 2 \<le> 0")
    case True
    with 1(2) have n: "n = 1" by linarith
    have z: "bit_length (n div 2) = 0" using True by (subst bit_length.simps) simp
    show ?thesis unfolding b z using n by simp
  next
    case False
    with 1 have ih: "2 ^ nat (bit_length (n div 2) - 1) \<le> n div 2"
      "n div 2 < 2 ^ nat (bit_length (n div 2))"
      by simp_all
    from False have pos: "bit_length (n div 2) > 0" by (simp add: bit_length_pos)
    have e: "nat (bit_length (n div 2)) = Suc (nat (bit_length (n div 2) - 1))"
      using pos by simp
    from ih(1) have l: "2 ^ nat (bit_length (n div 2)) \<le> n"
      unfolding e by simp
    have "nat (1 + bit_length (n div 2)) = Suc (nat (bit_length (n div 2)))"
      using pos by simp
    with ih(2) have u: "n < 2 ^ nat (1 + bit_length (n div 2))"
      by simp
    show ?thesis using l u by (simp add: b)
  qed
qed

lemma floor_log2_bounds:
  assumes "x > 0"
  shows "2 powi floor_log2 x \<le> x \<and> x < 2 powi (floor_log2 x + 1)"
proof -
  obtain p q where pq: "quotient_of x = (p, q)" by (cases "quotient_of x")
  then have q: "q > 0" and x: "x = of_int p / of_int q"
    using quotient_of_denom_pos quotient_of_div by auto
  with assms have p: "p > 0" by (simp add: zero_less_divide_iff)
  let ?bp = "bit_length p" and ?bq = "bit_length q"
  from bit_length_bounds [OF p] have bp: "(2::rat) ^ nat (?bp - 1) \<le> of_int p" "(of_int p :: rat) < 2 ^ nat ?bp"
    by (metis of_int_le_iff of_int_numeral of_int_power, metis of_int_less_iff of_int_numeral of_int_power)
  from bit_length_bounds [OF q] have bq: "(2::rat) ^ nat (?bq - 1) \<le> of_int q" "(of_int q :: rat) < 2 ^ nat ?bq"
    by (metis of_int_le_iff of_int_numeral of_int_power, metis of_int_less_iff of_int_numeral of_int_power)
  have pp: "?bp > 0" "?bq > 0" using p q by (simp_all add: bit_length_pos)
  have pw: "(2::rat) ^ nat k = 2 powi k" if "k \<ge> 0" for k
    using that by (simp add: power_int_def)
  have qpos: "(of_int q :: rat) > 0" using q by simp
  have up: "x < 2 powi (?bp - ?bq + 1)"
  proof -
    have "of_int p < (2::rat) powi ?bp" using bp(2) pp by (simp add: pw)
    also have "\<dots> = 2 powi (?bp - ?bq + 1) * 2 powi (?bq - 1)"
      by (simp flip: power_int_add)
    also have "\<dots> \<le> 2 powi (?bp - ?bq + 1) * of_int q"
      using bq(1) pp by (simp add: pw)
    finally show ?thesis using qpos by (simp add: x pos_divide_less_eq)
  qed
  have lo: "2 powi (?bp - ?bq - 1) \<le> x"
  proof -
    have "2 powi (?bp - ?bq - 1) * of_int q \<le> 2 powi (?bp - ?bq - 1) * (2::rat) powi ?bq"
      using bq(2) pp by (simp add: pw)
    also have "\<dots> = 2 powi (?bp - 1)" by (simp flip: power_int_add)
    also have "\<dots> \<le> of_int p" using bp(1) pp by (simp add: pw)
    finally show ?thesis using qpos by (simp add: x pos_le_divide_eq)
  qed
  show ?thesis
    using up lo by (auto simp: floor_log2_def Let_def pq)
qed

lemma round_half_even_near: "\<bar>x - of_int (round_half_even x)\<bar> \<le> 1 / 2"
proof -
  have "of_int \<lfloor>x\<rfloor> \<le> x" "x < of_int \<lfloor>x\<rfloor> + 1" by linarith+
  then show ?thesis by (auto simp: round_half_even_def Let_def)
qed

text \<open>The rounding at work: 0.28 and 0.1 are not doubles, and of the two products with an
  integer one is rounded up past 7 and the other down to 1.\<close>

lemma double_mult_examples:
  "nearest_double (28 / 100) = 5044031582654956 / 2 ^ 54"
  "double_mult 25 (nearest_double (28 / 100)) = Num (7 + 1 / 2 ^ 50)"
  "double_mult 10 (nearest_double (1 / 10)) = Num 1"
  "double_mult 4 (3 / 4) = Num 3"
  by code_simp+

lemma finalizeConsensus_terminal:
  "map_of (consensusRequests h) i = Some r \<Longrightarrow> c_status r \<noteq> C_PENDING \<Longrightarrow>
     map_of (consensusRequests (finalizeConsensus j now h)) i = Some r"
  by (auto simp: finalizeConsensus_def Let_def update_conv' split: option.splits)

lemma finalizeConsensus_pending:
  assumes "map_of (consensusRequests h) i = Some r" and "c_status r = C_PENDING"
  shows "\<exists>r'. map_of (consensusRequests (finalizeConsensus i now h)) i = Some r'
            \<and> c_status r' \<noteq> C_PENDING \<and> c_votes r' = c_votes r"
proof -
  have "\<exists>s \<in> {C_TIMEOUT, C_APPROVED, C_REJECTED}.
          consensusRequests (finalizeConsensus i now h)
            = AList.update i (r\<lparr>c_status := s\<rparr>) (consensusRequests h)"
    using assms by (auto simp: finalizeConsensus_def Let_def)
  then show ?thesis by (auto simp: update_conv')
qed

lemma vote_terminal:
  assumes "map_of (consensusRequests h) i = Some r" and "c_status r \<noteq> C_PENDING"
    and "vote agentId j val confidence reasoning now h = Inr h'"
  shows "map_of (consensusRequests h') i = Some r"
proof -
  from assms(3) obtain x where x: "map_of (consensusRequests h) j = Some x" "c_status x = C_PENDING"
    by (auto simp: vote_def split: option.splits if_splits)
  with assms(1,2) have ne: "j \<noteq> i" by auto
  let ?v = "\<lparr> v_agentId = agentId, v_value = val, v_confidence = confidence,
              v_reasoning = reasoning, v_timestamp = now \<rparr>"
  let ?h1 = "h\<lparr>consensusRequests :=
                 AList.update j (x\<lparr>c_votes := AList.update agentId ?v (c_votes x)\<rparr>) (consensusRequests h)\<rparr>"
  have h1: "map_of (consensusRequests ?h1) i = Some r"
    using ne assms(1) by (simp add: update_conv')
  from assms(3) x have "h' = finalizeConsensus j now ?h1 \<or> h' = ?h1"
    by (auto simp: vote_def Let_def split: if_splits)
  then show ?thesis
    using h1 finalizeConsensus_terminal [OF h1 assms(2)] by auto
qed

lemma hive_apply_terminal:
  assumes "map_of (consensusRequests h) i = Some r" and "c_status r \<noteq> C_PENDING"
    and "requests_other_id i x"
  shows "map_of (consensusRequests (hive_apply h x)) i = Some r"
proof (cases x)
  case (Pair now opn)
  show ?thesis
  proof (cases opn)
    case (OpVote agentId j val confidence reasoning)
    then show ?thesis using assms Pair vote_terminal [OF assms(1,2)]
      by (auto simp: after_vote_def split: sum.splits)
  next
    case (OpRetrieve key)
    then show ?thesis using assms Pair
      by (auto simp: retrieve_def split: option.splits)
  qed (use assms Pair in \<open>auto simp: finalizeConsensus_terminal hive_registerAgent_def
        hive_unregisterAgent_def cleanupAgentData_def requestConsensus_def Let_def update_conv'\<close>)
qed

lemma terminal_session_stays:
  assumes "map_of (consensusRequests h) i = Some r" and "c_status r \<noteq> C_PENDING"
    and "list_all (requests_other_id i) ops"
  shows "map_of (consensusRequests (foldl hive_apply h ops)) i = Some r"
  using assms
proof (induction ops arbitrary: h)
  case Nil
  then show ?case by simp
next
  case (Cons x ops)
  then show ?case using hive_apply_terminal [of h i r x] by simp
qed


lemma vote_rejected:
  assumes "\<forall>r. map_of (consensusRequests h) requestId = Some r \<longrightarrow> c_status r \<noteq> C_PENDING"
  shows "vote agentId requestId val confidence reasoning now h = Inl InvalidOrCompletedConsensusRequest"
  using assms by (auto simp: vote_def split: option.splits)

lemma vote_pending:
  fixes agentId :: string and val :: bool and confidence :: rat
    and reasoning :: "string option" and now :: int
  assumes r: "map_of (consensusRequests h) requestId = Some r" and p: "c_status r = C_PENDING"
  defines "v \<equiv> \<lparr> v_agentId = agentId, v_value = val, v_confidence = confidence,
                   v_reasoning = reasoning, v_timestamp = now \<rparr>"
  shows "\<exists>h' r'. vote agentId requestId val confidence reasoning now h = Inr h'
           \<and> map_of (consensusRequests h') requestId = Some r'
           \<and> c_votes r' = AList.update agentId v (c_votes r)
           \<and> (c_status r' \<noteq> C_PENDING \<longleftrightarrow>
                ge_double (of_nat (length (c_votes r')))
                  (double_mult (of_nat (length (h_agents h))) (consensusThreshold (h_config h))))"
proof -
  let ?r1 = "r\<lparr>c_votes := AList.update agentId v (c_votes r)\<rparr>"
  let ?h1 = "h\<lparr>consensusRequests := AList.update requestId ?r1 (consensusRequests h)\<rparr>"
  have m1: "map_of (consensusRequests ?h1) requestId = Some ?r1" by (simp add: update_conv')
  have p1: "c_status ?r1 = C_PENDING" using p by simp
  show ?thesis
  proof (cases "ge_double (of_nat (length (c_votes ?r1)))
                  (double_mult (of_nat (length (h_agents h))) (consensusThreshold (h_config h)))")
    case True
    then have e: "vote agentId requestId val confidence reasoning now h = Inr (finalizeConsensus requestId now ?h1)"
      using r p by (simp add: vote_def Let_def v_def)
    from finalizeConsensus_pending [OF m1 p1, of now] obtain r' where
      "map_of (consensusRequests (finalizeConsensus requestId now ?h1)) requestId = Some r'"
      "c_status r' \<noteq> C_PENDING" "c_votes r' = c_votes ?r1"
      by blast
    with e True show ?thesis by simp
  next
    case False
    then have e: "vote agentId requestId val confidence reasoning now h = Inr ?h1"
      using r p by (simp add: vote_def Let_def v_def)
    with m1 p1 False show ?thesis by simp
  qed
qed

text \<open>
  Claim C7, as the code has it. \<open>vote\<close> throws when the session does not exist or is not
  pending. On a pending session the vote is accepted and stored under the worker's id: a
  first vote adds the worker to the voters, a repeated vote takes the place of the worker's
  earlier vote (the voters stay the same, so a worker has one vote at most). The session
  leaves the pending state in the same call exactly when the number of stored votes is at
  least the double-precision product \<^verbatim>\<open>agents.size * consensusThreshold\<close>. And a session that
  is not pending is never changed again, votes included, by any later call.
\<close>

theorem C7_vote_rejected_replaced_finalized:
  "((\<forall>r. map_of (consensusRequests h) requestId = Some r \<longrightarrow> c_status r \<noteq> C_PENDING) \<longrightarrow>
      vote agentId requestId val confidence reasoning now h = Inl InvalidOrCompletedConsensusRequest)
   \<and> (\<forall>r. map_of (consensusRequests h) requestId = Some r \<and> c_status r = C_PENDING \<longrightarrow>
        (\<exists>h' r'. vote agentId requestId val confidence reasoning now h = Inr h'
           \<and> map_of (consensusRequests h') requestId = Some r'
           \<and> map_of (c_votes r') agentId
               = Some \<lparr> v_agentId = agentId, v_value = val, v_confidence = confidence,
                        v_reasoning = reasoning, v_timestamp = now \<rparr>
           \<and> map fst (c_votes r')
               = (if agentId \<in> set (map fst (c_votes r)) then map fst (c_votes r)
                  else map fst (c_votes r) @ [agentId])
           \<and> (c_status r' \<noteq> C_PENDING \<longleftrightarrow>
                ge_double (of_nat (length (c_votes r')))
                  (double_mult (of_nat (length (h_agents h))) (consensusThreshold (h_config h))))))
   \<and> (\<forall>r ops. map_of (consensusRequests h) requestId = Some r \<and> c_status r \<noteq> C_PENDING
          \<and> list_all (requests_other_id requestId) ops \<longrightarrow>
        map_of (consensusRequests (foldl hive_apply h ops)) requestId = Some r)"
proof (intro conjI allI impI)
  assume "\<forall>r. map_of (consensusRequests h) requestId = Some r \<longrightarrow> c_status r \<noteq> C_PENDING"
  then show "vote agentId requestId val confidence reasoning now h = Inl InvalidOrCompletedConsensusRequest"
    by (rule vote_rejected)
next
  fix r
  assume a: "map_of (consensusRequests h) requestId = Some r \<and> c_status r = C_PENDING"
  let ?v = "\<lparr> v_agentId = agentId, v_value = val, v_confidence = confidence,
              v_reasoning = reasoning, v_timestamp = now \<rparr>"
  from a vote_pending [of h requestId r agentId val confidence reasoning now]
  obtain h' r' where v: "vote agentId requestId val confidence reasoning now h = Inr h'"
    "map_of (consensusRequests h') requestId = Some r'"
    "c_votes r' = AList.update agentId ?v (c_votes r)"
    "c_status r' \<noteq> C_PENDING \<longleftrightarrow>
       ge_double (of_nat (length (c_votes r')))
                  (double_mult (of_nat (length (h_agents h))) (consensusThreshold (h_config h)))"
    by blast
  have "map_of (c_votes r') agentId = Some ?v" by (simp add: v(3) update_conv')
  moreover have "map fst (c_votes r')
               = (if agentId \<in> set (map fst (c_votes r)) then map fst (c_votes r)
                  else map fst (c_votes r) @ [agentId])"
    by (simp add: v(3) update_keys)
  ultimately show "\<exists>h' r'. vote agentId requestId val confidence reasoning now h = Inr h'
           \<and> map_of (consensusRequests h') requestId = Some r'
           \<and> map_of (c_votes r') agentId = Some ?v
           \<and> map fst (c_votes r')
               = (if agentId \<in> set (map fst (c_votes r)) then map fst (c_votes r)
                  else map fst (c_votes r) @ [agentId])
           \<and> (c_status r' \<noteq> C_PENDING \<longleftrightarrow>
                ge_double (of_nat (length (c_votes r')))
                  (double_mult (of_nat (length (h_agents h))) (consensusThreshold (h_config h))))"
    using v(1,2,4) by blast
next
  fix r ops
  assume "map_of (consensusRequests h) requestId = Some r \<and> c_status r \<noteq> C_PENDING
          \<and> list_all (requests_other_id requestId) ops"
  then show "map_of (consensusRequests (foldl hive_apply h ops)) requestId = Some r"
    using terminal_session_stays by blast
qed


text \<open>With 4 agents and the threshold 0.75 the product is 3 and the third vote finalizes the
  session; a fourth vote is then rejected, and nothing changes the session any more. With 25
  agents and the threshold 0.28 the product is the double 7.000000000000001: the session is
  still pending after 7 votes and is finalized by the eighth.\<close>

theorem C7_vote_rejected_replaced_finalized_witness:
  "map_option c_status (getConsensusResult voted_abc ''s1'') = Some C_REJECTED
   \<and> vote ''d'' ''s1'' True 1 None 9 voted_abc = Inl InvalidOrCompletedConsensusRequest
   \<and> map_option c_status (getConsensusResult
        (foldl hive_apply voted_abc
           [(9, OpVote ''d'' ''s1'' True 1 None), (10, OpFinalizeConsensus ''s1''),
            (11, OpUnregisterAgent ''a'')]) ''s1'') = Some C_REJECTED
   \<and> double_mult 25 (consensusThreshold (h_config session25)) = Num (7 + 1 / 2 ^ 50)
   \<and> map_option (\<lambda>r. (c_status r, length (c_votes r))) (getConsensusResult (votes25 7) ''s1'')
       = Some (C_PENDING, 7)
   \<and> map_option (\<lambda>r. (c_status r, length (c_votes r))) (getConsensusResult (votes25 8) ''s1'')
       = Some (C_TIMEOUT, 8)"
proof -
  have st: "map_option c_status (getConsensusResult voted_abc ''s1'') = Some C_REJECTED"
    by code_simp
  then obtain r where r: "map_of (consensusRequests voted_abc) ''s1'' = Some r"
    "c_status r = C_REJECTED"
    by (auto simp: getConsensusResult_def)
  then have np: "\<forall>r. map_of (consensusRequests voted_abc) ''s1'' = Some r \<longrightarrow> c_status r \<noteq> C_PENDING"
    by simp
  have ops: "list_all (requests_other_id ''s1'')
               [(9, OpVote ''d'' ''s1'' True 1 None), (10, OpFinalizeConsensus ''s1''),
                (11, OpUnregisterAgent ''a'')]"
    by simp
  have rp: "c_status r \<noteq> C_PENDING" using r(2) by simp
  note t = C7_vote_rejected_replaced_finalized [of voted_abc "''s1''" "''d''" True 1 None 9]
  from t [THEN conjunct1] np
  have "vote ''d'' ''s1'' True 1 None 9 voted_abc = Inl InvalidOrCompletedConsensusRequest"
    by (rule mp)
  moreover from t [THEN conjunct2, THEN conjunct2, THEN spec, THEN spec, THEN mp,
                   OF conjI [OF r(1) conjI [OF rp ops]]]
  have "map_of (consensusRequests
        (foldl hive_apply voted_abc
           [(9, OpVote ''d'' ''s1'' True 1 None), (10, OpFinalizeConsensus ''s1''),
            (11, OpUnregisterAgent ''a'')])) ''s1'' = Some r" .
  moreover have "double_mult 25 (consensusThreshold (h_config session25)) = Num (7 + 1 / 2 ^ 50)"
    by code_simp
  moreover have
    "map_option (\<lambda>r. (c_status r, length (c_votes r))) (getConsensusResult (votes25 7) ''s1'')
       = Some (C_PENDING, 7)"
    "map_option (\<lambda>r. (c_status r, length (c_votes r))) (getConsensusResult (votes25 8) ''s1'')
       = Some (C_TIMEOUT, 8)"
    by code_simp+
  ultimately show ?thesis using st r by (simp add: getConsensusResult_def)
qed

text \<open>
  Against claim C7 as stated. Agent a has voted yes on the pending session; its second
  vote, no, is accepted (the call does not throw) and takes the place of the first: the
  session then holds the one vote of a, cast at time 2, with the value no.
\<close>

theorem C7_repeated_vote_counterexample:
  "map_option (\<lambda>r. (c_status r, map (\<lambda>(k, v). (k, v_value v, v_timestamp v)) (c_votes r)))
     (getConsensusResult voted_a ''s1'') = Some (C_PENDING, [(''a'', True, 1)])
   \<and> (case vote ''a'' ''s1'' False 1 None 2 voted_a of
        Inl e \<Rightarrow> False
      | Inr h' \<Rightarrow>
          map_option (\<lambda>r. (c_status r, map (\<lambda>(k, v). (k, v_value v, v_timestamp v)) (c_votes r)))
            (getConsensusResult h' ''s1'') = Some (C_PENDING, [(''a'', False, 2)]))"
  by code_simp

lemma map_of_foldl_delete:
  "map_of (foldl (\<lambda>m ke. AList.delete (fst ke) m) m rs) k
     = (if k \<in> fst ` set rs then None else map_of m k)"
  by (induction rs arbitrary: m) (auto simp: delete_conv')

lemma enforceMemoryLimits_map_of:
  "map_of (knowledge (enforceMemoryLimits h)) k = Some e \<Longrightarrow> map_of (knowledge h) k = Some e"
  by (auto simp: enforceMemoryLimits_def Let_def map_of_foldl_delete split: if_splits)

lemma share_entry:
  assumes "map_of (knowledge (share agentId key val c ttl now h)) key = Some e"
  shows "case map_of (knowledge h) key of
           None \<Rightarrow> k_confidence e = Finite c \<and> k_votes e = [agentId]
         | Some existing \<Rightarrow>
             k_votes e = Set_add agentId (k_votes existing)
             \<and> k_confidence e = size_ratio (length (k_votes e)) (length (h_agents h))"
proof (cases "map_of (knowledge h) key")
  case None
  with enforceMemoryLimits_map_of [of _ key e] assms show ?thesis
    by (force simp: share_def Let_def update_conv')
next
  case (Some existing)
  with enforceMemoryLimits_map_of [of _ key e] assms show ?thesis
    by (force simp: share_def mergeKnowledge_def Let_def update_conv')
qed

lemma unregister_entries:
  assumes "h_agents (hive_unregisterAgent a h) \<noteq> []"
    and "ke \<in> set (knowledge (hive_unregisterAgent a h))"
  shows "k_confidence (snd ke)
           = Finite (of_nat (length (k_votes (snd ke))) / of_nat (length (h_agents (hive_unregisterAgent a h))))"
  using assms
  by (auto simp: hive_unregisterAgent_def cleanupAgentData_def Let_def size_ratio_def)

text \<open>
  Claim C6, as the code has it. A share does not change the set of agents. After a share
  on a key that is already stored, the entry (if the memory limit has not evicted it) has
  the sharing worker among its votes and, when an agent is registered, the confidence
  \<open>|votes| / |agents|\<close>. After a share on a new key the entry has the confidence the caller
  gave and the caller as its only vote. After an unregistration that leaves an agent, every
  stored entry has the confidence \<open>|votes| / |agents|\<close>, with the agents that remain.
\<close>

theorem C6_confidence_after_share_and_unregistration:
  "(\<forall>e. map_of (knowledge (share agentId key val c ttl now h)) key = Some e \<longrightarrow>
        (case map_of (knowledge h) key of
           None \<Rightarrow> k_confidence e = Finite c \<and> k_votes e = [agentId]
         | Some existing \<Rightarrow>
             k_votes e = Set_add agentId (k_votes existing)
             \<and> (h_agents h \<noteq> [] \<longrightarrow>
                  k_confidence e = Finite (of_nat (length (k_votes e)) / of_nat (length (h_agents h))))))
   \<and> h_agents (share agentId key val c ttl now h) = h_agents h
   \<and> (h_agents (hive_unregisterAgent a h) \<noteq> [] \<longrightarrow>
        (\<forall>ke \<in> set (knowledge (hive_unregisterAgent a h)).
           k_confidence (snd ke)
             = Finite (of_nat (length (k_votes (snd ke)))
                        / of_nat (length (h_agents (hive_unregisterAgent a h))))))"
proof (intro conjI allI impI ballI)
  fix e
  assume "map_of (knowledge (share agentId key val c ttl now h)) key = Some e"
  from share_entry [OF this] show "case map_of (knowledge h) key of
           None \<Rightarrow> k_confidence e = Finite c \<and> k_votes e = [agentId]
         | Some existing \<Rightarrow>
             k_votes e = Set_add agentId (k_votes existing)
             \<and> (h_agents h \<noteq> [] \<longrightarrow>
                  k_confidence e = Finite (of_nat (length (k_votes e)) / of_nat (length (h_agents h))))"
    by (auto simp: size_ratio_def split: option.splits)
next
  show "h_agents (share agentId key val c ttl now h) = h_agents h" by simp
next
  fix ke
  assume "h_agents (hive_unregisterAgent a h) \<noteq> []" "ke \<in> set (knowledge (hive_unregisterAgent a h))"
  then show "k_confidence (snd ke)
             = Finite (of_nat (length (k_votes (snd ke)))
                        / of_nat (length (h_agents (hive_unregisterAgent a h))))"
    by (rule unregister_entries)
qed

text \<open>
  Against claim C6 as stated. With two agents registered, the first share of a key by a1
  with confidence 0.9 stores an entry with one vote and the confidence 0.9, not 1/2. After
  a2 has shared the key too the entry has two votes and the confidence 1; when a third
  agent registers, the entry still has the confidence 1, not 2/3.
\<close>

theorem C6_confidence_counterexample:
  "h_agents first_shared = [''a1'', ''a2'']
   \<and> map (\<lambda>(k, e). (k, k_votes e, k_confidence e)) (knowledge first_shared)
       = [(''k'', [''a1''], Finite (9 / 10))]
   \<and> map (\<lambda>(k, e). (k, k_votes e, k_confidence e)) (knowledge both_shared)
       = [(''k'', [''a1'', ''a2''], Finite 1)]
   \<and> h_agents (hive_registerAgent ''a3'' both_shared) = [''a1'', ''a2'', ''a3'']
   \<and> map (\<lambda>(k, e). (k, k_votes e, k_confidence e)) (knowledge (hive_registerAgent ''a3'' both_shared))
       = [(''k'', [''a1'', ''a2''], Finite 1)]"
  by code_simp

theorem C6_confidence_after_share_and_unregistration_witness:
  "map_option k_confidence (map_of (knowledge both_shared) ''k'') = Some (Finite 1)
   \<and> map (\<lambda>(k, e). (k, k_votes e, k_confidence e)) (knowledge (hive_unregisterAgent ''a2'' both_shared))
       = [(''k'', [''a1''], Finite 1)]"
proof -
  have m: "map_of (knowledge first_shared) ''k'' \<noteq> None" by code_simp
  have v: "map_option k_votes (map_of (knowledge both_shared) ''k'') = Some [''a1'', ''a2'']"
    by code_simp
  then obtain e where e: "map_of (knowledge both_shared) ''k'' = Some e" "k_votes e = [''a1'', ''a2'']"
    by auto
  have ag: "h_agents first_shared = [''a1'', ''a2'']" by code_simp
  from C6_confidence_after_share_and_unregistration [of "''a2''" "''k''" "Payload ''w''" "8 / 10" None 2 first_shared, THEN conjunct1,
           THEN spec, THEN mp, OF e(1) [unfolded both_shared_def]] m
  have "h_agents first_shared \<noteq> [] \<longrightarrow>
          k_confidence e = Finite (of_nat (length (k_votes e)) / of_nat (length (h_agents first_shared)))"
    by (auto split: option.splits)
  then have "k_confidence e = Finite 1" by (simp add: ag e(2))
  moreover have "map (\<lambda>(k, e). (k, k_votes e, k_confidence e)) (knowledge (hive_unregisterAgent ''a2'' both_shared))
       = [(''k'', [''a1''], Finite 1)]"
    by code_simp
  ultimately show ?thesis using e(1) by simp
qed

end
